theory Spec2Isabelle
  imports Complex_Main "HOL-Library.Log_Nat"
begin

section \<open>SmartTEAM Live: the connection supervisor and message interpreter of live.js\<close>

text \<open>
  The model follows the sandboxed variant of the extension (the first of the two
  deployments in live.js; the second finds its room by probing the page address and
  asks permission for the http form of the address, and has the same supervisor and
  interpreter). The extension object is a record of its fields; the browser around it
  (the sockets it created, the timers it set and the permission checks it is awaiting)
  is part of the same record, so that every callback is a function from state to state
  and a run is a fold over a list of events.
\<close>

subsection \<open>JavaScript values\<close>

text \<open>
  A JS number as far as the handler looks at it: not-a-number, the two infinities, or a
  finite value. The handlers do no arithmetic on these values, so a finite double is
  represented by the rational it denotes (negative zero is identified with zero); the
  reporter of the confidence, which does, reads them as the doubles defined with it.
\<close>

datatype jsnum = NaN | PosInf | NegInf | Fin rat

fun isFinite :: "jsnum \<Rightarrow> bool" where
  "isFinite (Fin q) = True"
| "isFinite n = False"

text \<open>
  What \<open>JSON.parse\<close> can return. An object keeps one value for each key; reading a
  property that is absent gives \<open>undefined\<close>, which is \<open>None\<close> in \<open>jget\<close>.
\<close>

datatype jsval =
    JNull
  | JBool bool
  | JNum jsnum
  | JStr string
  | JArr "jsval list"
  | JObj "(string \<times> jsval) list"

fun jget :: "jsval \<Rightarrow> string \<Rightarrow> jsval option" where
  "jget (JObj kvs) k = map_of kvs k"
| "jget v k = None"

fun typeof :: "jsval \<Rightarrow> string" where
  "typeof JNull = ''object''"
| "typeof (JBool b) = ''boolean''"
| "typeof (JNum n) = ''number''"
| "typeof (JStr s) = ''string''"
| "typeof (JArr xs) = ''object''"
| "typeof (JObj kvs) = ''object''"

fun falsy :: "jsval \<Rightarrow> bool" where
  "falsy JNull = True"
| "falsy (JBool b) = (\<not> b)"
| "falsy (JNum n) = (n = NaN \<or> n = Fin 0)"
| "falsy (JStr s) = (s = [])"
| "falsy (JArr xs) = False"
| "falsy (JObj kvs) = False"

text \<open>
  The builtins of the host that the source calls and that are not code of this
  repository: \<open>JSON.parse\<close> (\<open>None\<close> when it raises), whether \<open>new URL(base)\<close>
  returns, the conversion of a string to a number and the printing of a number.
\<close>

record host =
  json_parse :: "string \<Rightarrow> jsval option"
  url_ok :: "string \<Rightarrow> bool"
  str_to_num :: "string \<Rightarrow> jsnum"
  num_to_str :: "jsnum \<Rightarrow> string"

datatype exn = TypeError

text \<open>
  \<open>ToString\<close> of a decoded value, \<open>None\<close> when it raises. An array prints as its
  elements joined by commas, \<open>null\<close> elements printing as nothing. A decoded object
  inherits \<open>Object.prototype.toString\<close> unless it has a key \<open>toString\<close> of its own:
  that value is JSON data, never callable, and \<open>valueOf\<close> returns the object itself, so
  the conversion to a primitive raises a TypeError.
\<close>

fun to_str :: "host \<Rightarrow> jsval \<Rightarrow> string option"
and join_elems :: "host \<Rightarrow> jsval list \<Rightarrow> string option" where
  "to_str h JNull = Some ''null''"
| "to_str h (JBool b) = Some (if b then ''true'' else ''false'')"
| "to_str h (JNum n) = Some (num_to_str h n)"
| "to_str h (JStr s) = Some s"
| "to_str h (JArr xs) = join_elems h xs"
| "to_str h (JObj kvs) =
     (if ''toString'' \<in> set (map fst kvs) then None else Some ''[object Object]'')"
| "join_elems h [] = Some []"
| "join_elems h (x # xs) =
     (case (if x = JNull then Some [] else to_str h x) of
        None \<Rightarrow> None
      | Some a \<Rightarrow>
          (if xs = [] then Some a
           else (case join_elems h xs of None \<Rightarrow> None | Some b \<Rightarrow> Some (a @ '','' @ b))))"

text \<open>\<open>Number(x)\<close>; the argument is \<open>None\<close> for \<open>undefined\<close>, the result when it raises.\<close>

fun Number_js :: "host \<Rightarrow> jsval option \<Rightarrow> jsnum option" where
  "Number_js h None = Some NaN"
| "Number_js h (Some JNull) = Some (Fin 0)"
| "Number_js h (Some (JBool b)) = Some (Fin (if b then 1 else 0))"
| "Number_js h (Some (JNum n)) = Some n"
| "Number_js h (Some (JStr s)) = Some (str_to_num h s)"
| "Number_js h (Some v) = map_option (str_to_num h) (to_str h v)"

subsection \<open>Helpers of live.js\<close>

definition DEFAULT_WS_BASE :: string where
  "DEFAULT_WS_BASE = ''wss://smartteam-gesture-bridge.marianobat.workers.dev/ws''"

definition BACKOFF_MS :: "nat list" where
  "BACKOFF_MS = [1000, 2000, 3000, 5000]"

text \<open>
  \<open>String.prototype.trim\<close> on the code units below 256: tab, line feed, vertical tab,
  form feed, carriage return, space and no-break space are white space.
\<close>

definition js_space :: "char \<Rightarrow> bool" where
  "js_space c = (of_char c \<in> {9, 10, 11, 12, 13, 32, 160 :: nat})"

definition trim :: "string \<Rightarrow> string" where
  "trim s = rev (dropWhile js_space (rev (dropWhile js_space s)))"

definition normalizeRoom :: "string \<Rightarrow> string" where
  "normalizeRoom r = trim (if r = [] then [] else r)"

definition safeJsonParse :: "host \<Rightarrow> string \<Rightarrow> jsval" where
  "safeJsonParse h text = (case json_parse h text of None \<Rightarrow> JNull | Some v \<Rightarrow> v)"

definition toFiniteNumber :: "host \<Rightarrow> jsval option \<Rightarrow> jsnum \<Rightarrow> jsnum option" where
  "toFiniteNumber h x fallback =
     (case Number_js h x of
        None \<Rightarrow> None
      | Some n \<Rightarrow> Some (if isFinite n then n else fallback))"

subsection \<open>The extension object and the browser around it\<close>

datatype readyState = Connecting | Opened | Closing | Closed

text \<open>
  A socket made by \<open>new WebSocket(url)\<close>: the address (base and room parameter), its
  ready state, whether the four callbacks of the extension are still set on it, and the
  reason given to \<open>close(1000, reason)\<close> if the extension closed it.
\<close>

record sock =
  s_url :: "string \<times> string"
  s_state :: readyState
  s_attached :: bool
  s_reason :: "string option"

record timer =
  t_delay :: nat
  t_pending :: bool

record perm_check =
  c_url :: "string \<times> string"
  c_pending :: bool

text \<open>
  The fields of the extension (\<open>_connected\<close> is \<open>connectedF\<close>, the others keep their
  names), then every socket, timer and permission check created so far; a handle is
  the position in its list.
\<close>

record state =
  connectedF :: bool
  room :: string
  wsBase :: string
  gesture :: string
  confidence :: jsnum
  subscribers :: jsnum
  defaultRoom :: string
  ws :: "nat option"
  shouldReconnect :: bool
  reconnectTimer :: "nat option"
  backoffIndex :: nat
  socks :: "sock list"
  timers :: "timer list"
  checks :: "perm_check list"

definition live :: "sock \<Rightarrow> bool" where
  "live k = (s_state k = Connecting \<or> s_state k = Opened)"

definition live_socks :: "state \<Rightarrow> nat list" where
  "live_socks s = filter (\<lambda>i. live (socks s ! i)) [0..<length (socks s)]"

definition pending_timers :: "state \<Rightarrow> nat list" where
  "pending_timers s = filter (\<lambda>i. t_pending (timers s ! i)) [0..<length (timers s)]"

definition pending_checks :: "state \<Rightarrow> nat list" where
  "pending_checks s = filter (\<lambda>i. c_pending (checks s ! i)) [0..<length (checks s)]"

subsection \<open>Internal logic\<close>

definition close_sock :: "string \<Rightarrow> sock \<Rightarrow> sock" where
  "close_sock reason k =
     (if live k
      then k\<lparr>s_attached := False, s_state := Closing,
             s_reason := Some (if reason = [] then ''close'' else reason)\<rparr>
      else k\<lparr>s_attached := False\<rparr>)"

definition closeWs :: "string \<Rightarrow> state \<Rightarrow> state" where
  "closeWs reason s =
     (case ws s of
        None \<Rightarrow> s\<lparr>ws := None\<rparr>
      | Some i \<Rightarrow> s\<lparr>ws := None, socks := (socks s)[i := close_sock reason (socks s ! i)]\<rparr>)"

definition clearReconnectTimer :: "state \<Rightarrow> state" where
  "clearReconnectTimer s =
     (case reconnectTimer s of
        None \<Rightarrow> s
      | Some t \<Rightarrow> s\<lparr>timers := (timers s)[t := (timers s ! t)\<lparr>t_pending := False\<rparr>],
                    reconnectTimer := None\<rparr>)"

definition scheduleReconnect :: "state \<Rightarrow> state" where
  "scheduleReconnect s =
     (if \<not> shouldReconnect s then s
      else if room s = [] then s
      else if reconnectTimer s \<noteq> None then s
      else
        (let idx = min (backoffIndex s) (length BACKOFF_MS - 1);
             delay = BACKOFF_MS ! idx
         in s\<lparr>backoffIndex := min (backoffIndex s + 1) (length BACKOFF_MS - 1),
              timers := timers s @ [\<lparr>t_delay = delay, t_pending = True\<rparr>],
              reconnectTimer := Some (length (timers s))\<rparr>))"

text \<open>
  \<open>new URL(base)\<close> returns on the compiled-in default; on any other base the host
  decides. The address is kept as the base with the room it carries.
\<close>

definition buildWsUrl :: "host \<Rightarrow> state \<Rightarrow> (string \<times> string) option" where
  "buildWsUrl h s =
     (let base = (if wsBase s = [] then DEFAULT_WS_BASE else wsBase s)
      in if base = DEFAULT_WS_BASE \<or> url_ok h base then Some (base, room s) else None)"

definition await_canFetch :: "string \<times> string \<Rightarrow> state \<Rightarrow> state" where
  "await_canFetch u s = s\<lparr>checks := checks s @ [\<lparr>c_url = u, c_pending = True\<rparr>]\<rparr>"

text \<open>\<open>_openWsAsync\<close> up to its \<open>await\<close>: the part that runs inside the caller.\<close>

definition openWs :: "host \<Rightarrow> state \<Rightarrow> state" where
  "openWs h s =
     (if room s = [] then s\<lparr>connectedF := False\<rparr>
      else if \<not> shouldReconnect s then s\<lparr>connectedF := False\<rparr>
      else
        (case buildWsUrl h s of
           Some u \<Rightarrow> await_canFetch u s
         | None \<Rightarrow>
             (let s1 = s\<lparr>wsBase := DEFAULT_WS_BASE\<rparr>
              in case buildWsUrl h s1 of
                   Some u \<Rightarrow> await_canFetch u s1
                 | None \<Rightarrow> scheduleReconnect (s1\<lparr>connectedF := False\<rparr>))))"

text \<open>
  What the permission check can answer: it allows the address and the socket is then
  made, it allows it and \<open>new WebSocket\<close> raises, it denies, or it raises itself.
\<close>

datatype verdict = Granted | GrantedCtorRaises | Denied | Raised

text \<open>\<open>_openWsAsync\<close> from its \<open>await\<close> on, resumed with the verdict.\<close>

fun openWs_resume :: "string \<times> string \<Rightarrow> verdict \<Rightarrow> state \<Rightarrow> state" where
  "openWs_resume u Raised s = scheduleReconnect (s\<lparr>connectedF := False\<rparr>)"
| "openWs_resume u Denied s = scheduleReconnect (s\<lparr>connectedF := False\<rparr>)"
| "openWs_resume u Granted s =
     s\<lparr>socks := socks s @ [\<lparr>s_url = u, s_state = Connecting, s_attached = True, s_reason = None\<rparr>],
       ws := Some (length (socks s))\<rparr>"
| "openWs_resume u GrantedCtorRaises s =
     scheduleReconnect (s\<lparr>connectedF := False, ws := None\<rparr>)"

definition onopen :: "state \<Rightarrow> state" where
  "onopen s = s\<lparr>connectedF := True, backoffIndex := 0\<rparr>"

definition onmessage :: "host \<Rightarrow> string \<Rightarrow> state \<Rightarrow> exn + state" where
  "onmessage h data s =
     (let msg = safeJsonParse h data in
      if falsy msg \<or> typeof msg \<noteq> ''object'' then Inr s
      else if jget msg ''type'' = Some (JStr ''gesture'') then
        (let label = (case jget msg ''label'' of Some (JStr l) \<Rightarrow> l | _ \<Rightarrow> [])
         in case toFiniteNumber h (jget msg ''confidence'') (Fin 0) of
              None \<Rightarrow> Inl TypeError
            | Some conf \<Rightarrow> Inr (s\<lparr>gesture := label, confidence := conf\<rparr>))
      else if jget msg ''type'' = Some (JStr ''presence'') then
        (case toFiniteNumber h (jget msg ''subscribers'') (subscribers s) of
           None \<Rightarrow> Inl TypeError
         | Some subs \<Rightarrow> Inr (s\<lparr>subscribers := subs\<rparr>))
      else Inr s)"

definition onerror :: "state \<Rightarrow> state" where
  "onerror s = s\<lparr>connectedF := False\<rparr>"

definition onclose :: "state \<Rightarrow> state" where
  "onclose s = scheduleReconnect (s\<lparr>connectedF := False, ws := None\<rparr>)"

definition timer_callback :: "host \<Rightarrow> state \<Rightarrow> state" where
  "timer_callback h s =
     (let s1 = s\<lparr>reconnectTimer := None\<rparr>
      in if ws s1 \<noteq> None then s1
         else if \<not> shouldReconnect s1 then s1
         else if room s1 = [] then s1
         else openWs h s1)"

definition setRoomInternal :: "host \<Rightarrow> string \<Rightarrow> bool \<Rightarrow> state \<Rightarrow> state" where
  "setRoomInternal h r auto s =
     (if r = [] then
        (let s1 = s\<lparr>room := [], connectedF := False\<rparr>
         in if \<not> auto
            then closeWs ''room cleared'' (clearReconnectTimer (s1\<lparr>shouldReconnect := False\<rparr>))
            else s1)
      else
        (let s1 = s\<lparr>defaultRoom := r\<rparr>
         in if r = room s1 \<and> ws s1 \<noteq> None then s1
            else openWs h (closeWs ''room changed'' (clearReconnectTimer
                   (s1\<lparr>room := r, gesture := [], confidence := Fin 0, subscribers := Fin 0,
                       backoffIndex := 0, shouldReconnect := True\<rparr>)))))"

subsection \<open>Commands and reporters\<close>

definition setRoom :: "host \<Rightarrow> string \<Rightarrow> state \<Rightarrow> state" where
  "setRoom h arg s = setRoomInternal h (normalizeRoom arg) False s"

definition reconnect :: "host \<Rightarrow> state \<Rightarrow> state" where
  "reconnect h s =
     (if room s = [] then s\<lparr>connectedF := False\<rparr>
      else openWs h (closeWs ''manual reconnect'' (clearReconnectTimer
             (s\<lparr>backoffIndex := 0, shouldReconnect := True\<rparr>))))"

definition disconnect :: "state \<Rightarrow> state" where
  "disconnect s =
     (closeWs ''manual disconnect'' (clearReconnectTimer (s\<lparr>shouldReconnect := False\<rparr>)))
       \<lparr>connectedF := False\<rparr>"

definition getRoom :: "state \<Rightarrow> string" where
  "getRoom s = room s"

definition isConnected :: "state \<Rightarrow> bool" where
  "isConnected s = connectedF s"

definition getGesture :: "state \<Rightarrow> string" where
  "getGesture s = gesture s"

definition getSubscribers :: "host \<Rightarrow> state \<Rightarrow> jsnum option" where
  "getSubscribers h s = toFiniteNumber h (Some (JNum (subscribers s))) (Fin 0)"

subsection \<open>Double arithmetic and the confidence reporter\<close>

text \<open>
  The reporter of the confidence multiplies and divides, so its numbers are doubles:
  not-a-number, the two infinities, the two zeros (the flag is the sign bit), and the
  finite values other than zero, each represented by the rational it denotes.
\<close>

datatype dbl = D_NaN | D_Inf bool | D_Zero bool | D_Num rat

text \<open>
  \<open>binade x\<close> is the exponent \<open>e\<close> with \<open>2^e \<le> x < 2^(e+1)\<close>, for a positive \<open>x\<close>;
  it is found from the bit lengths of numerator and denominator.
\<close>

definition binade :: "rat \<Rightarrow> int" where
  "binade x = (let (p, q) = quotient_of x; d = bitlen p - bitlen q
               in if 2 powi d \<le> x then d else d - 1)"

text \<open>The nearest integer, the even one of the two at a tie.\<close>

definition round_half_even :: "rat \<Rightarrow> int" where
  "round_half_even y =
     (let f = \<lfloor>y\<rfloor>; d = y - of_int f
      in if d < 1 / 2 then f else if 1 / 2 < d then f + 1 else if even f then f else f + 1)"

text \<open>
  The double that an exact result is rounded to after every operation: the nearest
  one, ties to the even significand. The significand has 53 bits; the unit in the last
  place is \<open>2^(e-52)\<close> in the binade \<open>e\<close> and never less than \<open>2^(-1074)\<close> (the
  subnormal values); a result that rounds to \<open>2^1024\<close> or more is an infinity, and one
  that rounds to nothing is the zero with the sign of the exact result.
\<close>

definition rnd :: "rat \<Rightarrow> dbl" where
  "rnd x =
     (if x = 0 then D_Zero False
      else
        (let a = \<bar>x\<bar>;
             e = max (binade a) (- 1022);
             q = 2 powi (e - 52);
             m = round_half_even (a / q);
             v = of_int m * q
         in if 2 ^ 1024 \<le> v then D_Inf (x < 0)
            else if m = 0 then D_Zero (x < 0)
            else D_Num (if x < 0 then - v else v)))"

text \<open>The double that a number held by the extension denotes.\<close>

fun to_dbl :: "jsnum \<Rightarrow> dbl" where
  "to_dbl NaN = D_NaN"
| "to_dbl PosInf = D_Inf False"
| "to_dbl NegInf = D_Inf True"
| "to_dbl (Fin q) = (if q = 0 then D_Zero False else D_Num q)"

text \<open>
  \<open>n * 100\<close> and \<open>r / 100\<close>: the exact product or quotient, rounded; zeros,
  infinities and not-a-number are returned as they are, the factor being positive.
\<close>

fun mul100 :: "dbl \<Rightarrow> dbl" where
  "mul100 (D_Num x) = rnd (x * 100)"
| "mul100 d = d"

fun div100 :: "dbl \<Rightarrow> dbl" where
  "div100 (D_Num x) = rnd (x / 100)"
| "div100 d = d"

text \<open>
  \<open>Math.round\<close>: the integer nearest to the argument, the larger one at a tie;
  negative zero for an argument from -0.5 up to, but not including, 0.
\<close>

fun Math_round :: "dbl \<Rightarrow> dbl" where
  "Math_round (D_Num x) =
     (let k = \<lfloor>x + 1 / 2\<rfloor> in if k = 0 then D_Zero (x < 0) else D_Num (of_int k))"
| "Math_round d = d"

text \<open>\<open>round2\<close>; the test \<open>Object.is(r, -0)\<close> is the comparison with negative zero.\<close>

definition round2 :: "dbl \<Rightarrow> dbl" where
  "round2 n = (let r = div100 (Math_round (mul100 n)) in if r = D_Zero True then D_Zero False else r)"

definition getConfidence :: "host \<Rightarrow> state \<Rightarrow> dbl option" where
  "getConfidence h s =
     map_option (\<lambda>n. round2 (to_dbl n)) (toFiniteNumber h (Some (JNum (confidence s))) (Fin 0))"

fun is_Inf :: "dbl \<Rightarrow> bool" where
  "is_Inf (D_Inf b) = True"
| "is_Inf d = False"

subsection \<open>The constructor and the event loop\<close>

text \<open>
  The constructor, given the transport base that \<open>normalizeWsBase\<close> returned and the
  \<open>room\<close> parameter of the script address (empty when there is none).
\<close>

definition init :: "host \<Rightarrow> string \<Rightarrow> string \<Rightarrow> state" where
  "init h base roomParam =
     (let roomFromScript = normalizeRoom roomParam;
          s0 = \<lparr>connectedF = False, room = [], wsBase = base, gesture = [],
                confidence = Fin 0, subscribers = Fin 0, defaultRoom = roomFromScript,
                ws = None, shouldReconnect = False, reconnectTimer = None, backoffIndex = 0,
                socks = [], timers = [], checks = []\<rparr>
      in if roomFromScript \<noteq> [] then setRoomInternal h roomFromScript True s0
         else s0\<lparr>connectedF := False\<rparr>)"

text \<open>
  One turn of the event loop. A command block runs; or a pending timer fires; or a
  pending permission check answers; or the browser delivers an event on a socket, which
  reaches the extension only while its callbacks are set. An event that cannot happen
  in the state (a timer that is not pending, a message on a socket that is not open)
  leaves it as it is. An exception that leaves \<open>onmessage\<close> goes to the host; the
  handler has assigned nothing before it.
\<close>

datatype event =
    SetRoom string
  | Reconnect
  | Disconnect
  | TimerFire nat
  | PermResult nat verdict
  | SockOpen nat
  | SockMessage nat string
  | SockError nat
  | SockClose nat

fun step :: "host \<Rightarrow> event \<Rightarrow> state \<Rightarrow> state" where
  "step h (SetRoom arg) s = setRoom h arg s"
| "step h Reconnect s = reconnect h s"
| "step h Disconnect s = disconnect s"
| "step h (TimerFire t) s =
     (if t < length (timers s) \<and> t_pending (timers s ! t)
      then timer_callback h (s\<lparr>timers := (timers s)[t := (timers s ! t)\<lparr>t_pending := False\<rparr>]\<rparr>)
      else s)"
| "step h (PermResult c v) s =
     (if c < length (checks s) \<and> c_pending (checks s ! c)
      then openWs_resume (c_url (checks s ! c)) v
             (s\<lparr>checks := (checks s)[c := (checks s ! c)\<lparr>c_pending := False\<rparr>]\<rparr>)
      else s)"
| "step h (SockOpen i) s =
     (if i < length (socks s) \<and> s_state (socks s ! i) = Connecting
      then (let s1 = s\<lparr>socks := (socks s)[i := (socks s ! i)\<lparr>s_state := Opened\<rparr>]\<rparr>
            in if s_attached (socks s ! i) then onopen s1 else s1)
      else s)"
| "step h (SockMessage i d) s =
     (if i < length (socks s) \<and> s_state (socks s ! i) = Opened \<and> s_attached (socks s ! i)
      then (case onmessage h d s of Inl e \<Rightarrow> s | Inr s1 \<Rightarrow> s1)
      else s)"
| "step h (SockError i) s =
     (if i < length (socks s) \<and> live (socks s ! i) \<and> s_attached (socks s ! i)
      then onerror s
      else s)"
| "step h (SockClose i) s =
     (if i < length (socks s) \<and> s_state (socks s ! i) \<noteq> Closed
      then (let s1 = s\<lparr>socks := (socks s)[i := (socks s ! i)\<lparr>s_state := Closed\<rparr>]\<rparr>
            in if s_attached (socks s ! i) then onclose s1 else s1)
      else s)"

definition run :: "host \<Rightarrow> event list \<Rightarrow> state \<Rightarrow> state" where
  "run h evs s = foldl (\<lambda>s e. step h e s) s evs"

subsection \<open>Invariants of the supervisor\<close>

text \<open>
  The only timer that can still fire is the one the extension holds in
  \<open>_reconnectTimer\<close>.
\<close>

definition one_timer :: "state \<Rightarrow> bool" where
  "one_timer s = (\<forall>t < length (timers s). t_pending (timers s ! t) \<longrightarrow> reconnectTimer s = Some t)"

text \<open>While a room is set, the default shown in the block is that room.\<close>

definition default_sync :: "state \<Rightarrow> bool" where
  "default_sync s = (room s \<noteq> [] \<longrightarrow> defaultRoom s = room s)"

text \<open>No timer is pending.\<close>

definition quiet :: "state \<Rightarrow> bool" where
  "quiet s = (\<forall>t < length (timers s). \<not> t_pending (timers s ! t))"

text \<open>Without the intent to reconnect no timer is pending.\<close>

definition idle_quiet :: "state \<Rightarrow> bool" where
  "idle_quiet s = (\<not> shouldReconnect s \<longrightarrow> quiet s)"

definition good :: "state \<Rightarrow> bool" where
  "good s = (one_timer s \<and> default_sync s \<and> idle_quiet s)"

subsection \<open>A host and frames for the examples\<close>

text \<open>
  Two frames as the server can send them, and a host whose decoder returns what
  \<open>JSON.parse\<close> returns on these two and raises on every other text, among them
  \<open>not json\<close>. The second frame carries an object with a key \<open>toString\<close> where the
  confidence is expected.
\<close>

definition presence_frame :: string where
  \<open>presence_frame = ''{"type":"presence","subscribers":3}''\<close>

definition hostile_frame :: string where
  \<open>hostile_frame = ''{"type":"gesture","label":"wave","confidence":{"toString":0}}''\<close>

definition sample_parse :: "string \<Rightarrow> jsval option" where
  "sample_parse t =
     (if t = presence_frame
      then Some (JObj [(''type'', JStr ''presence''), (''subscribers'', JNum (Fin 3))])
      else if t = hostile_frame
      then Some (JObj [(''type'', JStr ''gesture''), (''label'', JStr ''wave''),
                       (''confidence'', JObj [(''toString'', JNum (Fin 0))])])
      else None)"

definition sample_host :: host where
  "sample_host = \<lparr>json_parse = sample_parse, url_ok = (\<lambda>b. False),
                  str_to_num = (\<lambda>s. NaN), num_to_str = (\<lambda>n. [])\<rparr>"

text \<open>The extension as constructed with the default base and no room in the script address.\<close>

definition fresh :: state where
  "fresh = init sample_host DEFAULT_WS_BASE []"

text \<open>A decoded value is a keyed structure when it is a JSON object.\<close>

fun is_object :: "jsval \<Rightarrow> bool" where
  "is_object (JObj kvs) = True"
| "is_object v = False"

text \<open>
  Two gesture frames whose confidence is written \<open>1e307\<close> and \<open>-0.00001\<close>, and a
  host that decodes these two. The number a decimal denotes is the double nearest to
  it: \<open>8016673440035891 * 2^967\<close> for the first and \<open>-5902958103587057 / 2^69\<close> for
  the second.
\<close>

definition huge_frame :: string where
  \<open>huge_frame = ''{"type":"gesture","label":"wave","confidence":1e307}''\<close>

definition tiny_frame :: string where
  \<open>tiny_frame = ''{"type":"gesture","label":"wave","confidence":-0.00001}''\<close>

definition number_parse :: "string \<Rightarrow> jsval option" where
  "number_parse t =
     (if t = huge_frame
      then Some (JObj [(''type'', JStr ''gesture''), (''label'', JStr ''wave''),
                       (''confidence'', JNum (Fin (8016673440035891 * 2 ^ 967)))])
      else if t = tiny_frame
      then Some (JObj [(''type'', JStr ''gesture''), (''label'', JStr ''wave''),
                       (''confidence'', JNum (Fin (- 5902958103587057 / 2 ^ 69)))])
      else None)"

definition number_host :: host where
  "number_host = sample_host\<lparr>json_parse := number_parse\<rparr>"

subsection \<open>Consecutive failed attempts\<close>

text \<open>
  The ways a connect attempt fails: the permission check denies, the permission check
  raises, \<open>new WebSocket\<close> raises, or the socket is made and closes before it opens.
  The events of one failure act on the latest permission check (and on the socket it
  makes); the retry timer that the failure sets then fires and starts the next attempt.
\<close>

datatype failure = CheckDenied | CheckRaised | CtorRaised | ClosedUnopened

fun fail_events :: "state \<Rightarrow> failure \<Rightarrow> event list" where
  "fail_events s CheckDenied = [PermResult (length (checks s) - 1) Denied]"
| "fail_events s CheckRaised = [PermResult (length (checks s) - 1) Raised]"
| "fail_events s CtorRaised = [PermResult (length (checks s) - 1) GrantedCtorRaises]"
| "fail_events s ClosedUnopened =
     [PermResult (length (checks s) - 1) Granted, SockClose (length (socks s))]"

definition fail_and_retry :: "host \<Rightarrow> failure \<Rightarrow> state \<Rightarrow> state" where
  "fail_and_retry h f s = step h (TimerFire (length (timers s))) (run h (fail_events s f) s)"

fun fail_loop :: "host \<Rightarrow> failure list \<Rightarrow> state \<Rightarrow> state" where
  "fail_loop h [] s = s"
| "fail_loop h (f # fs) s = fail_loop h fs (fail_and_retry h f s)"

text \<open>The delays of the timers set between two states, in the order they were set.\<close>

definition new_delays :: "state \<Rightarrow> state \<Rightarrow> nat list" where
  "new_delays s s' = map t_delay (drop (length (timers s)) (timers s'))"

text \<open>The sequence as the specification writes it: 1000, 2000, 3000, then 5000 for ever.\<close>

definition backoff_table :: "nat \<Rightarrow> nat list" where
  "backoff_table n = take n ([1000, 2000, 3000] @ replicate n 5000)"

text \<open>
  A connect attempt is under way: the intent is set, a room is set, no timer and no
  socket is held, and the latest permission check has not answered.
\<close>

definition attempt_pending :: "state \<Rightarrow> bool" where
  "attempt_pending s =
     (shouldReconnect s \<and> room s \<noteq> [] \<and> reconnectTimer s = None \<and> ws s = None \<and>
      checks s \<noteq> [] \<and> c_pending (last (checks s)))"

subsection \<open>States of the examples\<close>

text \<open>
  A room whose transport is open; a room waiting out its first backoff delay; a
  disconnect issued while the permission check of the first attempt is still
  outstanding; the room cleared while that check is outstanding, and the check then
  granted; and a third attempt whose socket has been made but has not opened yet.
\<close>

definition opened_room :: state where
  "opened_room = run sample_host [SetRoom ''ST-1'', PermResult 0 Granted, SockOpen 0] fresh"

definition backing_off :: state where
  "backing_off = run sample_host [SetRoom ''ST-1'', PermResult 0 Denied] fresh"

definition disconnected_while_checking :: state where
  "disconnected_while_checking = run sample_host [SetRoom ''ST-1'', Disconnect] fresh"

definition cleared_then_granted :: state where
  "cleared_then_granted = run sample_host [SetRoom ''ST-1'', SetRoom [], PermResult 0 Granted] fresh"

definition connecting_after_two_failures :: state where
  "connecting_after_two_failures =
     run sample_host [SetRoom ''ST-1'', PermResult 0 Denied, TimerFire 0, PermResult 1 Denied,
                      TimerFire 1, PermResult 2 Granted] fresh"

text \<open>
  Two rooms set one after the other before the first permission check has answered,
  and both checks granted: two sockets, the handle on the second. A reconnect in place
  of the second room, the second socket opened and a presence frame received on it,
  and the first socket then closed by the server, whose close handler clears the handle
  although it refers to the second socket. A reconnect issued while the transport of
  the room is open. And each of the two gesture frames above received on the open
  transport of a room.
\<close>

definition two_live :: state where
  "two_live = run sample_host
     [SetRoom ''ST-1'', SetRoom ''ST-2'', PermResult 0 Granted, PermResult 1 Granted] fresh"

definition handle_lost :: state where
  "handle_lost = run sample_host
     [SetRoom ''ST-1'', Reconnect, PermResult 0 Granted, PermResult 1 Granted, SockOpen 1,
      SockMessage 1 presence_frame, SockClose 0] fresh"

definition reconnect_while_open :: state where
  "reconnect_while_open = run sample_host
     [SetRoom ''ST-1'', PermResult 0 Granted, SockOpen 0, Reconnect] fresh"

definition huge_confidence :: state where
  "huge_confidence = run number_host
     [SetRoom ''ST-1'', PermResult 0 Granted, SockOpen 0, SockMessage 0 huge_frame]
     (init number_host DEFAULT_WS_BASE [])"

definition tiny_negative :: state where
  "tiny_negative = run number_host
     [SetRoom ''ST-1'', PermResult 0 Granted, SockOpen 0, SockMessage 0 tiny_frame]
     (init number_host DEFAULT_WS_BASE [])"

text \<open>The commands that start a connect sequence.\<close>

fun starts_connecting :: "event \<Rightarrow> bool" where
  "starts_connecting (SetRoom x) = True"
| "starts_connecting Reconnect = True"
| "starts_connecting e = False"

section \<open>Properties\<close>

subsection \<open>Evaluation\<close>

text \<open>
  A run is evaluated event by event. The compiled-in base is not empty, which decides
  the test \<open>this._wsBase || DEFAULT_WS_BASE\<close> without unfolding the address.
\<close>

lemma DEFAULT_WS_BASE_nonempty [simp]: "DEFAULT_WS_BASE \<noteq> []"
  by (simp add: DEFAULT_WS_BASE_def)

lemma run_Nil [simp]: "run h [] s = s"
  by (simp add: run_def)

lemma run_Cons [simp]: "run h (e # evs) s = run h evs (step h e s)"
  by (simp add: run_def)

lemmas model_defs = fresh_def init_def sample_host_def sample_parse_def presence_frame_def
  hostile_frame_def setRoom_def setRoomInternal_def normalizeRoom_def trim_def js_space_def
  openWs_def closeWs_def close_sock_def clearReconnectTimer_def scheduleReconnect_def buildWsUrl_def
  await_canFetch_def live_socks_def pending_timers_def pending_checks_def live_def
  disconnect_def reconnect_def onopen_def onclose_def onerror_def onmessage_def timer_callback_def
  isConnected_def getGesture_def getSubscribers_def getRoom_def safeJsonParse_def toFiniteNumber_def
  BACKOFF_MS_def Let_def

lemmas state_defs = opened_room_def backing_off_def disconnected_while_checking_def
  cleared_then_granted_def connecting_after_two_failures_def

lemmas example_defs = two_live_def handle_lost_def reconnect_while_open_def

lemmas number_defs = number_host_def number_parse_def huge_frame_def tiny_frame_def
  huge_confidence_def tiny_negative_def

subsection \<open>The invariants hold in every reachable state\<close>

text \<open>
  Each internal step is followed through the fields the invariants speak about; the
  commands and callbacks are compositions of these steps.
\<close>

lemma closeWs_fields [simp]:
  "timers (closeWs r s) = timers s"
  "reconnectTimer (closeWs r s) = reconnectTimer s"
  "room (closeWs r s) = room s"
  "defaultRoom (closeWs r s) = defaultRoom s"
  "shouldReconnect (closeWs r s) = shouldReconnect s"
  "ws (closeWs r s) = None"
  by (simp_all add: closeWs_def split: option.splits)

lemma clear_fields [simp]:
  "reconnectTimer (clearReconnectTimer s) = None"
  "room (clearReconnectTimer s) = room s"
  "defaultRoom (clearReconnectTimer s) = defaultRoom s"
  "shouldReconnect (clearReconnectTimer s) = shouldReconnect s"
  "ws (clearReconnectTimer s) = ws s"
  "socks (clearReconnectTimer s) = socks s"
  "length (timers (clearReconnectTimer s)) = length (timers s)"
  by (simp_all add: clearReconnectTimer_def split: option.splits)

lemma quiet_clear:
  assumes "one_timer s"
  shows "quiet (clearReconnectTimer s)"
proof (cases "reconnectTimer s")
  case None
  then show ?thesis
    using assms by (auto simp: one_timer_def quiet_def clearReconnectTimer_def)
next
  case (Some a)
  have "\<not> t_pending ((timers s)[a := (timers s ! a)\<lparr>t_pending := False\<rparr>] ! t)"
    if "t < length (timers s)" for t
  proof (cases "t = a")
    case True
    then show ?thesis using that by simp
  next
    case False
    then show ?thesis using assms Some that by (auto simp: one_timer_def)
  qed
  then show ?thesis
    using Some by (simp add: quiet_def clearReconnectTimer_def)
qed

lemma quiet_one_timer: "quiet s \<Longrightarrow> one_timer s"
  by (simp add: quiet_def one_timer_def)

lemma schedule_fields [simp]:
  "room (scheduleReconnect s) = room s"
  "defaultRoom (scheduleReconnect s) = defaultRoom s"
  "shouldReconnect (scheduleReconnect s) = shouldReconnect s"
  "ws (scheduleReconnect s) = ws s"
  "socks (scheduleReconnect s) = socks s"
  by (simp_all add: scheduleReconnect_def Let_def)

lemma one_timer_schedule: "one_timer s \<Longrightarrow> one_timer (scheduleReconnect s)"
  unfolding one_timer_def scheduleReconnect_def Let_def
  by (cases "reconnectTimer s") (auto simp: nth_append)

lemma idle_quiet_schedule: "idle_quiet s \<Longrightarrow> idle_quiet (scheduleReconnect s)"
  unfolding idle_quiet_def quiet_def scheduleReconnect_def Let_def
  by auto

lemma openWs_fields [simp]:
  "room (openWs h s) = room s"
  "defaultRoom (openWs h s) = defaultRoom s"
  "shouldReconnect (openWs h s) = shouldReconnect s"
  "ws (openWs h s) = ws s"
  "socks (openWs h s) = socks s"
  by (simp_all add: openWs_def await_canFetch_def Let_def split: option.splits)

lemma one_timer_eq:
  "timers s' = timers s \<Longrightarrow> reconnectTimer s' = reconnectTimer s \<Longrightarrow> one_timer s \<Longrightarrow> one_timer s'"
  by (simp add: one_timer_def)

lemma idle_quiet_eq:
  "timers s' = timers s \<Longrightarrow> shouldReconnect s' = shouldReconnect s \<Longrightarrow> idle_quiet s \<Longrightarrow> idle_quiet s'"
  by (simp add: idle_quiet_def quiet_def)

lemma one_timer_openWs: "one_timer s \<Longrightarrow> one_timer (openWs h s)"
  unfolding openWs_def Let_def await_canFetch_def
  by (auto split: option.splits intro!: one_timer_schedule elim: one_timer_eq[rotated 2])

lemma idle_quiet_openWs: "idle_quiet s \<Longrightarrow> idle_quiet (openWs h s)"
  unfolding openWs_def Let_def await_canFetch_def
  by (auto split: option.splits intro!: idle_quiet_schedule elim: idle_quiet_eq[rotated 2])

lemma one_timer_resume: "one_timer s \<Longrightarrow> one_timer (openWs_resume u v s)"
  by (cases v) (auto intro!: one_timer_schedule elim: one_timer_eq[rotated 2])

lemma idle_quiet_resume: "idle_quiet s \<Longrightarrow> idle_quiet (openWs_resume u v s)"
  by (cases v) (auto intro!: idle_quiet_schedule elim: idle_quiet_eq[rotated 2])

lemma resume_fields [simp]:
  "room (openWs_resume u v s) = room s"
  "defaultRoom (openWs_resume u v s) = defaultRoom s"
  "shouldReconnect (openWs_resume u v s) = shouldReconnect s"
  by (cases v; simp)+

lemma onmessage_fields:
  assumes "onmessage h d s = Inr s'"
  shows "room s' = room s" "defaultRoom s' = defaultRoom s" "shouldReconnect s' = shouldReconnect s"
    "timers s' = timers s" "reconnectTimer s' = reconnectTimer s" "ws s' = ws s" "socks s' = socks s"
    "checks s' = checks s" "backoffIndex s' = backoffIndex s" "connectedF s' = connectedF s"
    "wsBase s' = wsBase s"
  using assms by (auto simp: onmessage_def Let_def split: if_splits option.splits)

lemma quiet_eq: "timers s' = timers s \<Longrightarrow> quiet s \<Longrightarrow> quiet s'"
  by (simp add: quiet_def)

lemma quiet_idle: "quiet s \<Longrightarrow> idle_quiet s"
  by (simp add: idle_quiet_def)

lemma quiet_torn_down:
  assumes "one_timer s" "timers s0 = timers s" "reconnectTimer s0 = reconnectTimer s"
  shows "quiet (closeWs r (clearReconnectTimer s0))"
proof -
  have "one_timer s0" using assms by (auto elim: one_timer_eq[rotated 2])
  then have "quiet (clearReconnectTimer s0)" by (rule quiet_clear)
  then show ?thesis by (rule quiet_eq[rotated]) simp
qed

lemma good_after_open:
  assumes "quiet s" "default_sync s"
  shows "good (openWs h s)"
  using assms
  by (simp add: good_def default_sync_def one_timer_openWs idle_quiet_openWs quiet_one_timer quiet_idle)

lemma good_setRoomInternal:
  assumes "good s"
  shows "good (setRoomInternal h r a s)"
proof (cases "r = []")
  case True
  show ?thesis
  proof (cases a)
    case True
    with \<open>r = []\<close> assms show ?thesis
      by (auto simp: setRoomInternal_def Let_def good_def default_sync_def
               elim: one_timer_eq[rotated 2] idle_quiet_eq[rotated 2])
  next
    case False
    have "quiet (closeWs ''room cleared'' (clearReconnectTimer
            (s\<lparr>room := [], connectedF := False, shouldReconnect := False\<rparr>)))"
      using assms by (intro quiet_torn_down[of s]) (simp_all add: good_def)
    with \<open>r = []\<close> False show ?thesis
      by (simp add: setRoomInternal_def Let_def good_def default_sync_def quiet_one_timer quiet_idle)
  qed
next
  case False
  show ?thesis
  proof (cases "r = room s \<and> ws s \<noteq> None")
    case True
    with False assms show ?thesis
      by (auto simp: setRoomInternal_def Let_def good_def default_sync_def
               elim: one_timer_eq[rotated 2] idle_quiet_eq[rotated 2])
  next
    case noop: False
    let ?s1 = "s\<lparr>defaultRoom := r, room := r, gesture := [], confidence := Fin 0,
                  subscribers := Fin 0, backoffIndex := 0, shouldReconnect := True\<rparr>"
    have q: "quiet (closeWs ''room changed'' (clearReconnectTimer ?s1))"
      using assms by (intro quiet_torn_down[of s]) (simp_all add: good_def)
    have d: "default_sync (closeWs ''room changed'' (clearReconnectTimer ?s1))"
      by (simp add: default_sync_def)
    from q d have "good (openWs h (closeWs ''room changed'' (clearReconnectTimer ?s1)))"
      by (rule good_after_open)
    with False noop show ?thesis
      by (auto simp: setRoomInternal_def Let_def)
  qed
qed

lemma good_reconnect:
  assumes "good s"
  shows "good (reconnect h s)"
proof (cases "room s = []")
  case True
  with assms show ?thesis
    by (auto simp: reconnect_def good_def default_sync_def
             elim: one_timer_eq[rotated 2] idle_quiet_eq[rotated 2])
next
  case False
  let ?s1 = "s\<lparr>backoffIndex := 0, shouldReconnect := True\<rparr>"
  have q: "quiet (closeWs ''manual reconnect'' (clearReconnectTimer ?s1))"
    using assms by (intro quiet_torn_down[of s]) (simp_all add: good_def)
  have d: "default_sync (closeWs ''manual reconnect'' (clearReconnectTimer ?s1))"
    using assms by (simp add: default_sync_def good_def)
  from q d have "good (openWs h (closeWs ''manual reconnect'' (clearReconnectTimer ?s1)))"
    by (rule good_after_open)
  with False show ?thesis
    by (simp add: reconnect_def)
qed

lemma quiet_disconnect:
  assumes "one_timer s"
  shows "quiet (disconnect s)"
proof -
  have "quiet (closeWs ''manual disconnect'' (clearReconnectTimer (s\<lparr>shouldReconnect := False\<rparr>)))"
    using assms by (intro quiet_torn_down[of s]) simp_all
  then show ?thesis
    unfolding disconnect_def by (rule quiet_eq[rotated]) simp
qed

lemma good_disconnect:
  assumes "good s"
  shows "good (disconnect s)"
proof -
  have "quiet (disconnect s)" using assms by (simp add: good_def quiet_disconnect)
  moreover have "default_sync (disconnect s)"
    using assms by (simp add: good_def default_sync_def disconnect_def)
  ultimately show ?thesis
    by (simp add: good_def quiet_one_timer quiet_idle)
qed

lemma good_eq:
  assumes "good s" "timers s' = timers s" "reconnectTimer s' = reconnectTimer s"
    "shouldReconnect s' = shouldReconnect s" "room s' = room s" "defaultRoom s' = defaultRoom s"
  shows "good s'"
  using assms
  by (auto simp: good_def default_sync_def elim: one_timer_eq[rotated 2] idle_quiet_eq[rotated 2])

lemma good_schedule: "good s \<Longrightarrow> good (scheduleReconnect s)"
  by (simp add: good_def default_sync_def one_timer_schedule idle_quiet_schedule)

lemma good_openWs: "good s \<Longrightarrow> good (openWs h s)"
  by (simp add: good_def default_sync_def one_timer_openWs idle_quiet_openWs)

lemma good_resume: "good s \<Longrightarrow> good (openWs_resume u v s)"
  by (simp add: good_def default_sync_def one_timer_resume idle_quiet_resume)

lemma good_onclose: "good s \<Longrightarrow> good (onclose s)"
  unfolding onclose_def by (rule good_schedule) (erule good_eq; simp)

lemma good_timer_callback:
  assumes "good s" "t < length (timers s)" "t_pending (timers s ! t)"
  shows "good (timer_callback h (s\<lparr>timers := (timers s)[t := (timers s ! t)\<lparr>t_pending := False\<rparr>]\<rparr>))"
proof -
  let ?s1 = "s\<lparr>timers := (timers s)[t := (timers s ! t)\<lparr>t_pending := False\<rparr>], reconnectTimer := None\<rparr>"
  have rt: "reconnectTimer s = Some t"
    using assms by (simp add: good_def one_timer_def)
  have "quiet (clearReconnectTimer s)"
    using assms by (simp add: good_def quiet_clear)
  then have "quiet ?s1"
    using rt by (simp add: clearReconnectTimer_def)
  moreover have "default_sync ?s1"
    using assms by (simp add: good_def default_sync_def)
  ultimately have g: "good ?s1"
    by (simp add: good_def quiet_one_timer quiet_idle)
  then have "good (openWs h ?s1)" by (rule good_openWs)
  with g show ?thesis
    by (simp add: timer_callback_def Let_def)
qed

lemma good_step:
  assumes "good s"
  shows "good (step h e s)"
proof (cases e)
  case (SetRoom x)
  then show ?thesis using assms by (simp add: setRoom_def good_setRoomInternal)
next
  case Reconnect
  then show ?thesis using assms by (simp add: good_reconnect)
next
  case Disconnect
  then show ?thesis using assms by (simp add: good_disconnect)
next
  case (TimerFire t)
  then show ?thesis using assms by (simp add: good_timer_callback)
next
  case (PermResult c v)
  have "good (s\<lparr>checks := cs\<rparr>)" for cs
    using assms by (rule good_eq) simp_all
  then show ?thesis using assms PermResult by (simp add: good_resume)
next
  case (SockOpen i)
  have "good (s\<lparr>socks := ks\<rparr>)" for ks
    using assms by (rule good_eq) simp_all
  moreover have "good (onopen (s\<lparr>socks := ks\<rparr>))" for ks
    using assms unfolding onopen_def by (rule good_eq) simp_all
  ultimately show ?thesis using assms SockOpen by (simp add: Let_def)
next
  case (SockMessage i d)
  have "good s1" if "onmessage h d s = Inr s1" for s1
    using assms by (rule good_eq) (simp_all add: onmessage_fields[OF that])
  then show ?thesis using assms SockMessage by (simp split: sum.splits)
next
  case (SockError i)
  have "good (onerror s)"
    using assms unfolding onerror_def by (rule good_eq) simp_all
  then show ?thesis using assms SockError by simp
next
  case (SockClose i)
  have g: "good (s\<lparr>socks := ks\<rparr>)" for ks
    using assms by (rule good_eq) simp_all
  then have "good (onclose (s\<lparr>socks := ks\<rparr>))" for ks
    by (rule good_onclose)
  with g show ?thesis using assms SockClose by (simp add: Let_def)
qed

lemma good_run: "good s \<Longrightarrow> good (run h evs s)"
  unfolding run_def by (induction evs arbitrary: s) (simp_all add: good_step)

lemma good_init: "good (init h b r)"
proof -
  have g: "good \<lparr>connectedF = False, room = [], wsBase = b, gesture = [],
                confidence = Fin 0, subscribers = Fin 0, defaultRoom = d,
                ws = None, shouldReconnect = False, reconnectTimer = None, backoffIndex = 0,
                socks = [], timers = [], checks = []\<rparr>" for d
    by (simp add: good_def one_timer_def default_sync_def idle_quiet_def quiet_def)
  show ?thesis
    unfolding init_def Let_def
    by (auto intro!: good_setRoomInternal g good_eq[OF g])
qed

lemma good_reachable: "good (run h evs (init h b r))"
  by (simp add: good_run good_init)

subsection \<open>What the internal steps change\<close>

lemma openWs_started:
  assumes "room s \<noteq> []" "shouldReconnect s"
  shows "openWs h s =
     s\<lparr>wsBase := (if wsBase s = [] \<or> wsBase s = DEFAULT_WS_BASE \<or> url_ok h (wsBase s)
                   then wsBase s else DEFAULT_WS_BASE),
       checks := checks s @
          [\<lparr>c_url = (if wsBase s \<noteq> [] \<and> url_ok h (wsBase s) then wsBase s else DEFAULT_WS_BASE,
                     room s),
            c_pending = True\<rparr>]\<rparr>"
  using assms by (cases s) (auto simp: openWs_def buildWsUrl_def await_canFetch_def Let_def)

lemma quiet_pending: "quiet s \<Longrightarrow> pending_timers s = []"
  by (simp add: quiet_def pending_timers_def filter_empty_conv)

lemma close_sock_dead: "\<not> live (close_sock r k)"
  by (simp add: close_sock_def live_def)

lemma closeWs_socks:
  "socks (closeWs r s) =
     (case ws s of None \<Rightarrow> socks s | Some i \<Rightarrow> (socks s)[i := close_sock r (socks s ! i)])"
  by (simp add: closeWs_def split: option.splits)

lemma closeWs_drops_handle:
  assumes "ws s = Some i"
  shows "i \<notin> set (live_socks (closeWs r s))"
  using assms by (auto simp: live_socks_def closeWs_def close_sock_dead)

lemma closeWs_same [simp]:
  "gesture (closeWs r s) = gesture s" "confidence (closeWs r s) = confidence s"
  "subscribers (closeWs r s) = subscribers s" "backoffIndex (closeWs r s) = backoffIndex s"
  "checks (closeWs r s) = checks s" "connectedF (closeWs r s) = connectedF s"
  "wsBase (closeWs r s) = wsBase s"
  by (simp_all add: closeWs_def split: option.splits)

lemma clear_same [simp]:
  "gesture (clearReconnectTimer s) = gesture s" "confidence (clearReconnectTimer s) = confidence s"
  "subscribers (clearReconnectTimer s) = subscribers s"
  "backoffIndex (clearReconnectTimer s) = backoffIndex s"
  "checks (clearReconnectTimer s) = checks s" "connectedF (clearReconnectTimer s) = connectedF s"
  "wsBase (clearReconnectTimer s) = wsBase s"
  by (simp_all add: clearReconnectTimer_def split: option.splits)

lemma setRoom_empty:
  assumes "normalizeRoom arg = []"
  shows "setRoom h arg s =
     closeWs ''room cleared'' (clearReconnectTimer
       (s\<lparr>room := [], connectedF := False, shouldReconnect := False\<rparr>))"
  using assms by (simp add: setRoom_def setRoomInternal_def)

lemma setRoom_restart:
  assumes "normalizeRoom arg \<noteq> []" "\<not> (normalizeRoom arg = room s \<and> ws s \<noteq> None)"
  shows "setRoom h arg s =
     openWs h (closeWs ''room changed'' (clearReconnectTimer
       (s\<lparr>defaultRoom := normalizeRoom arg, room := normalizeRoom arg, gesture := [],
           confidence := Fin 0, subscribers := Fin 0, backoffIndex := 0, shouldReconnect := True\<rparr>)))"
  using assms by (auto simp: setRoom_def setRoomInternal_def Let_def)

lemma backoff_last: "length BACKOFF_MS - Suc 0 = 3"
  by (simp add: BACKOFF_MS_def)

lemma schedule_sets_timer:
  assumes "shouldReconnect s" "room s \<noteq> []" "reconnectTimer s = None"
  shows "scheduleReconnect s =
     s\<lparr>backoffIndex := min (backoffIndex s + 1) 3,
       timers := timers s @ [\<lparr>t_delay = BACKOFF_MS ! min (backoffIndex s) 3, t_pending = True\<rparr>],
       reconnectTimer := Some (length (timers s))\<rparr>"
  using assms by (simp add: scheduleReconnect_def Let_def backoff_last)

subsection \<open>The message interpreter\<close>

lemma onmessage_ignores:
  assumes "json_parse h d = None \<or>
           (\<exists>v. json_parse h d = Some v \<and>
                (\<not> is_object v \<or>
                 (jget v ''type'' \<noteq> Some (JStr ''gesture'') \<and>
                  jget v ''type'' \<noteq> Some (JStr ''presence''))))"
  shows "onmessage h d s = Inr s"
proof (cases "json_parse h d")
  case None
  then show ?thesis by (simp add: onmessage_def safeJsonParse_def)
next
  case (Some v)
  with assms have "\<not> is_object v \<or>
     (jget v ''type'' \<noteq> Some (JStr ''gesture'') \<and> jget v ''type'' \<noteq> Some (JStr ''presence''))"
    by simp
  then show ?thesis using Some
    by (cases v) (auto simp: onmessage_def safeJsonParse_def)
qed

lemma presence_then_garbage:
  assumes "json_parse h presence_frame =
             Some (JObj [(''type'', JStr ''presence''), (''subscribers'', JNum (Fin 3))])"
    and "json_parse h ''not json'' = None"
    and "i < length (socks s)" "s_state (socks s ! i) = Opened" "s_attached (socks s ! i)"
  shows "getSubscribers h (run h [SockMessage i presence_frame, SockMessage i ''not json''] s)
           = Some (Fin 3)"
  using assms
  by (simp add: onmessage_def safeJsonParse_def toFiniteNumber_def getSubscribers_def)

text \<open>
  C6. A frame that fails to decode, or decodes to something that is not an object, or
  is an object whose \<open>type\<close> is neither \<open>gesture\<close> nor \<open>presence\<close>, leaves the
  state as it is and raises nothing: the handler returns normally with the state it
  got, and so does the delivery of the frame on any socket. In particular, on an open
  socket of the extension, a presence frame with 3 subscribers followed by the text
  \<open>not json\<close> leaves the subscriber reporter at 3.
\<close>

theorem undecodable_frame_ignored:
  "((json_parse h d = None \<or>
      (\<exists>v. json_parse h d = Some v \<and>
           (\<not> is_object v \<or>
            (jget v ''type'' \<noteq> Some (JStr ''gesture'') \<and>
             jget v ''type'' \<noteq> Some (JStr ''presence'')))))
     \<longrightarrow> onmessage h d s = Inr s \<and> step h (SockMessage i d) s = s)
   \<and> (json_parse h presence_frame =
         Some (JObj [(''type'', JStr ''presence''), (''subscribers'', JNum (Fin 3))]) \<and>
       json_parse h ''not json'' = None \<and>
       i < length (socks s) \<and> s_state (socks s ! i) = Opened \<and> s_attached (socks s ! i)
     \<longrightarrow> getSubscribers h (run h [SockMessage i presence_frame, SockMessage i ''not json''] s)
           = Some (Fin 3))"
proof (intro conjI impI)
  assume a: "json_parse h d = None \<or>
      (\<exists>v. json_parse h d = Some v \<and>
           (\<not> is_object v \<or>
            (jget v ''type'' \<noteq> Some (JStr ''gesture'') \<and>
             jget v ''type'' \<noteq> Some (JStr ''presence''))))"
  then show r: "onmessage h d s = Inr s" by (rule onmessage_ignores)
  then show "step h (SockMessage i d) s = s" by simp
next
  assume "json_parse h presence_frame =
         Some (JObj [(''type'', JStr ''presence''), (''subscribers'', JNum (Fin 3))]) \<and>
       json_parse h ''not json'' = None \<and>
       i < length (socks s) \<and> s_state (socks s ! i) = Opened \<and> s_attached (socks s ! i)"
  then show "getSubscribers h (run h [SockMessage i presence_frame, SockMessage i ''not json''] s)
           = Some (Fin 3)"
    by (intro presence_then_garbage) simp_all
qed

lemma opened_state:
  "run sample_host [SetRoom ''ST-1'', PermResult 0 Granted, SockOpen 0] fresh =
     \<lparr>connectedF = True, room = ''ST-1'', wsBase = DEFAULT_WS_BASE, gesture = [],
      confidence = Fin 0, subscribers = Fin 0, defaultRoom = ''ST-1'', ws = Some 0,
      shouldReconnect = True, reconnectTimer = None, backoffIndex = 0,
      socks = [\<lparr>s_url = (DEFAULT_WS_BASE, ''ST-1''), s_state = Opened, s_attached = True,
                s_reason = None\<rparr>],
      timers = [],
      checks = [\<lparr>c_url = (DEFAULT_WS_BASE, ''ST-1''), c_pending = False\<rparr>]\<rparr>"
  by (simp add: model_defs)

theorem undecodable_frame_ignored_witness:
  "json_parse sample_host ''not json'' = None \<and>
   json_parse sample_host presence_frame =
     Some (JObj [(''type'', JStr ''presence''), (''subscribers'', JNum (Fin 3))]) \<and>
   0 < length (socks (run sample_host [SetRoom ''ST-1'', PermResult 0 Granted, SockOpen 0] fresh)) \<and>
   s_state (socks (run sample_host [SetRoom ''ST-1'', PermResult 0 Granted, SockOpen 0] fresh) ! 0)
     = Opened \<and>
   s_attached (socks (run sample_host [SetRoom ''ST-1'', PermResult 0 Granted, SockOpen 0] fresh) ! 0) \<and>
   onmessage sample_host ''not json''
     (run sample_host [SetRoom ''ST-1'', PermResult 0 Granted, SockOpen 0] fresh)
     = Inr (run sample_host [SetRoom ''ST-1'', PermResult 0 Granted, SockOpen 0] fresh) \<and>
   getSubscribers sample_host
     (run sample_host [SockMessage 0 presence_frame, SockMessage 0 ''not json'']
        (run sample_host [SetRoom ''ST-1'', PermResult 0 Granted, SockOpen 0] fresh))
     = Some (Fin 3)"
  using undecodable_frame_ignored
          [of sample_host "''not json''"
              "run sample_host [SetRoom ''ST-1'', PermResult 0 Granted, SockOpen 0] fresh" 0]
  unfolding opened_state
  by (simp add: sample_host_def sample_parse_def presence_frame_def hostile_frame_def)

text \<open>
  A frame of kind \<open>gesture\<close> or \<open>presence\<close> whose number field converts without
  raising is taken over as described: the label when it is a string and the empty
  string otherwise, the confidence when it is finite and 0 otherwise, the subscriber
  count when it is finite and the value already held otherwise. Absent fields, numbers,
  strings, booleans and \<open>null\<close> always convert.
\<close>

lemma gesture_frame_overwrites:
  assumes "json_parse h d = Some (JObj kvs)" "map_of kvs ''type'' = Some (JStr ''gesture'')"
    and "Number_js h (map_of kvs ''confidence'') = Some n"
  shows "onmessage h d s =
           Inr (s\<lparr>gesture := (case map_of kvs ''label'' of Some (JStr l) \<Rightarrow> l | _ \<Rightarrow> []),
                   confidence := (if isFinite n then n else Fin 0)\<rparr>)"
  using assms by (simp add: onmessage_def safeJsonParse_def toFiniteNumber_def)

lemma presence_frame_overwrites:
  assumes "json_parse h d = Some (JObj kvs)" "map_of kvs ''type'' = Some (JStr ''presence'')"
    and "Number_js h (map_of kvs ''subscribers'') = Some n"
  shows "onmessage h d s = Inr (s\<lparr>subscribers := (if isFinite n then n else subscribers s)\<rparr>)"
  using assms by (simp add: onmessage_def safeJsonParse_def toFiniteNumber_def)

lemma coercion_raises:
  assumes "json_parse h d = Some (JObj kvs)" "map_of kvs ''type'' = Some (JStr ''gesture'')"
    and "Number_js h (map_of kvs ''confidence'') = None"
  shows "onmessage h d s = Inl TypeError"
  using assms by (simp add: onmessage_def safeJsonParse_def toFiniteNumber_def)

lemma Number_js_plain:
  "Number_js h None = Some NaN" "Number_js h (Some JNull) = Some (Fin 0)"
  "Number_js h (Some (JNum n)) = Some n" "Number_js h (Some (JStr t)) = Some (str_to_num h t)"
  "Number_js h (Some (JObj [(''toString'', v)])) = None"
  by simp_all

text \<open>
  C7. For every decoded frame of kind \<open>gesture\<close> the handler overwrites the label
  and the confidence. \<open>toFiniteNumber\<close> calls \<open>Number\<close> outside any \<open>try\<close>, and
  \<open>Number\<close> raises on an object that has a key \<open>toString\<close> of its own: on the
  frame \<open>hostile_frame\<close>, delivered on the open socket of a room, the handler leaves
  with a TypeError before it assigns anything, and the label stays empty instead of
  becoming \<open>wave\<close>.
\<close>

theorem coercion_raises_in_handler:
  "onmessage sample_host hostile_frame opened_room = Inl TypeError \<and>
   getGesture (step sample_host (SockMessage 0 hostile_frame) opened_room) = []"
  by (simp add: state_defs model_defs)

subsection \<open>Retry timers\<close>

text \<open>
  In every reachable state at most one retry timer is pending, and after
  \<open>disconnect\<close> none is pending for as long as neither \<open>setRoom\<close> nor
  \<open>reconnect\<close> is called, whatever the timers, permission checks and sockets do.
\<close>

lemma pending_timers_le_one:
  assumes "one_timer s"
  shows "length (pending_timers s) \<le> 1"
proof -
  have d: "distinct (pending_timers s)" by (simp add: pending_timers_def)
  have "set (pending_timers s) \<subseteq> set_option (reconnectTimer s)"
    using assms by (auto simp: pending_timers_def one_timer_def)
  then have "card (set (pending_timers s)) \<le> card (set_option (reconnectTimer s))"
    by (intro card_mono) simp_all
  also have "\<dots> \<le> 1" by (cases "reconnectTimer s") simp_all
  finally show ?thesis using d by (simp add: distinct_card)
qed

lemma at_most_one_pending_timer: "length (pending_timers (run h evs (init h b r))) \<le> 1"
proof -
  have "one_timer (run h evs (init h b r))"
    using good_reachable[of h evs b r] by (simp add: good_def)
  then show ?thesis by (rule pending_timers_le_one)
qed

lemma intent_unchanged:
  assumes "\<not> starts_connecting e" "\<not> shouldReconnect s"
  shows "\<not> shouldReconnect (step h e s)"
proof (cases e)
  case (SockMessage i d)
  then show ?thesis using assms
    by (auto split: sum.splits dest: onmessage_fields(3))
qed (use assms in \<open>auto simp: disconnect_def timer_callback_def Let_def onopen_def onerror_def onclose_def\<close>)

lemma intent_stays_off:
  assumes "\<forall>e \<in> set evs. \<not> starts_connecting e" "\<not> shouldReconnect s"
  shows "\<not> shouldReconnect (run h evs s)"
  using assms by (induction evs arbitrary: s) (simp_all add: intent_unchanged)

lemma no_retry_after_disconnect:
  assumes "s = run h evs0 (init h b r)" "\<forall>e \<in> set evs. \<not> starts_connecting e"
  shows "pending_timers (run h evs (disconnect s)) = []"
proof -
  have "run h evs (disconnect s) = run h (evs0 @ Disconnect # evs) (init h b r)"
    using assms(1) by (simp add: run_def)
  then have "good (run h evs (disconnect s))"
    by (simp add: good_reachable)
  moreover have "\<not> shouldReconnect (run h evs (disconnect s))"
    using assms(2) by (intro intent_stays_off) (simp_all add: disconnect_def)
  ultimately show ?thesis
    by (simp add: good_def idle_quiet_def quiet_pending)
qed

text \<open>
  C1. After \<open>disconnect()\<close> no retry timer fires and no transport is opened until
  \<open>setRoom\<close> or \<open>reconnect\<close> is called, and a permission check that answers
  after \<open>disconnect()\<close> looks at the intent flag and the room again before it opens
  a transport. The code does not look again: \<open>_openWsAsync\<close> tests the room and the
  flag before the \<open>await\<close> only. With the room set and \<open>disconnect()\<close> called
  while the check is outstanding, the flag is off, nothing is live and no timer is
  pending; the grant then makes a socket, stores it in \<open>_ws\<close> with the flag still
  off, and its open event sets \<open>connected\<close>. With the room cleared instead, the
  grant makes a socket while the room is empty.
\<close>

theorem stale_grant_opens_after_disconnect:
  "\<not> shouldReconnect disconnected_while_checking \<and>
   live_socks disconnected_while_checking = [] \<and>
   pending_timers disconnected_while_checking = [] \<and>
   pending_checks disconnected_while_checking = [0] \<and>
   live_socks (step sample_host (PermResult 0 Granted) disconnected_while_checking) = [0] \<and>
   ws (step sample_host (PermResult 0 Granted) disconnected_while_checking) = Some 0 \<and>
   \<not> shouldReconnect (step sample_host (PermResult 0 Granted) disconnected_while_checking) \<and>
   isConnected (run sample_host [PermResult 0 Granted, SockOpen 0] disconnected_while_checking) \<and>
   \<not> shouldReconnect cleared_then_granted \<and> room cleared_then_granted = [] \<and>
   live_socks cleared_then_granted = [0]"
  by (simp add: state_defs model_defs)

text \<open>
  C2. At most one live transport and at most one pending retry timer exist at any
  instant, for every interleaving. The timer half is \<open>at_most_one_pending_timer\<close>
  above. The transport half fails: two calls of \<open>setRoom\<close> before the first
  permission check answers leave two checks outstanding, each grant makes a socket, and
  the first socket stays live with its callbacks set after \<open>_ws\<close> has moved on to
  the second.
\<close>

theorem overlapping_checks_open_two_transports:
  "live_socks (run sample_host
     [SetRoom ''ST-1'', SetRoom ''ST-2'', PermResult 0 Granted, PermResult 1 Granted] fresh) = [0, 1] \<and>
   map s_attached (socks (run sample_host
     [SetRoom ''ST-1'', SetRoom ''ST-2'', PermResult 0 Granted, PermResult 1 Granted] fresh))
     = [True, True] \<and>
   ws (run sample_host
     [SetRoom ''ST-1'', SetRoom ''ST-2'', PermResult 0 Granted, PermResult 1 Granted] fresh) = Some 1"
  by (simp add: model_defs)

subsection \<open>The backoff sequence\<close>

lemma last_check:
  assumes "checks s \<noteq> []"
  shows "length (checks s) - 1 < length (checks s)"
    and "checks s ! (length (checks s) - 1) = last (checks s)"
  using assms by (simp_all add: last_conv_nth)

lemma failure_sets_timer:
  assumes "attempt_pending s"
  shows "\<exists>cs ks c. run h (fail_events s f) s =
     s\<lparr>connectedF := c, checks := cs, socks := ks,
       backoffIndex := min (backoffIndex s + 1) 3,
       timers := timers s @ [\<lparr>t_delay = BACKOFF_MS ! min (backoffIndex s) 3, t_pending = True\<rparr>],
       reconnectTimer := Some (length (timers s))\<rparr> \<and> cs \<noteq> []"
proof -
  have a: "shouldReconnect s" "room s \<noteq> []" "reconnectTimer s = None" "ws s = None"
    "checks s \<noteq> []" "c_pending (last (checks s))"
    using assms by (simp_all add: attempt_pending_def)
  note lc = last_check[OF a(5)]
  show ?thesis
  proof (cases f)
    case CheckDenied
    then show ?thesis
      using a lc by (cases s) (auto simp: schedule_sets_timer)
  next
    case CheckRaised
    then show ?thesis
      using a lc by (cases s) (auto simp: schedule_sets_timer)
  next
    case CtorRaised
    then show ?thesis
      using a lc by (cases s) (auto simp: schedule_sets_timer)
  next
    case ClosedUnopened
    then show ?thesis
      using a lc by (cases s) (auto simp: schedule_sets_timer onclose_def Let_def)
  qed
qed

lemma retry_fires:
  assumes "shouldReconnect s" "room s \<noteq> []" "ws s = None"
    and "timers s = ts @ [\<lparr>t_delay = d, t_pending = True\<rparr>]"
  shows "\<exists>cs b. step h (TimerFire (length ts)) s =
     s\<lparr>timers := ts @ [\<lparr>t_delay = d, t_pending = False\<rparr>], reconnectTimer := None,
       wsBase := b, checks := checks s @ cs\<rparr> \<and> cs \<noteq> [] \<and> c_pending (last cs)"
proof -
  let ?s1 = "s\<lparr>timers := ts @ [\<lparr>t_delay = d, t_pending = False\<rparr>], reconnectTimer := None\<rparr>"
  have "step h (TimerFire (length ts)) s = openWs h ?s1"
    using assms by (simp add: timer_callback_def Let_def)
  moreover have "openWs h ?s1 =
     ?s1\<lparr>wsBase := (if wsBase ?s1 = [] \<or> wsBase ?s1 = DEFAULT_WS_BASE \<or> url_ok h (wsBase ?s1)
                   then wsBase ?s1 else DEFAULT_WS_BASE),
       checks := checks ?s1 @
          [\<lparr>c_url = (if wsBase ?s1 \<noteq> [] \<and> url_ok h (wsBase ?s1) then wsBase ?s1 else DEFAULT_WS_BASE,
                     room ?s1),
            c_pending = True\<rparr>]\<rparr>"
    using assms by (intro openWs_started) simp_all
  ultimately show ?thesis
    by (cases s) auto
qed

lemma fail_and_retry_round:
  assumes "attempt_pending s"
  shows "attempt_pending (fail_and_retry h f s) \<and>
         timers (fail_and_retry h f s) =
           timers s @ [\<lparr>t_delay = BACKOFF_MS ! min (backoffIndex s) 3, t_pending = False\<rparr>] \<and>
         backoffIndex (fail_and_retry h f s) = min (backoffIndex s + 1) 3"
proof -
  have a: "shouldReconnect s" "room s \<noteq> []" "ws s = None"
    using assms by (simp_all add: attempt_pending_def)
  obtain cs ks c where f: "run h (fail_events s f) s =
     s\<lparr>connectedF := c, checks := cs, socks := ks,
       backoffIndex := min (backoffIndex s + 1) 3,
       timers := timers s @ [\<lparr>t_delay = BACKOFF_MS ! min (backoffIndex s) 3, t_pending = True\<rparr>],
       reconnectTimer := Some (length (timers s))\<rparr>"
    using failure_sets_timer[OF assms] by blast
  let ?s1 = "run h (fail_events s f) s"
  have "\<exists>cs' b. step h (TimerFire (length (timers s))) ?s1 =
     ?s1\<lparr>timers := timers s @ [\<lparr>t_delay = BACKOFF_MS ! min (backoffIndex s) 3, t_pending = False\<rparr>],
         reconnectTimer := None, wsBase := b, checks := checks ?s1 @ cs'\<rparr> \<and>
       cs' \<noteq> [] \<and> c_pending (last cs')"
    using a by (intro retry_fires) (simp_all add: f)
  then obtain cs' b' where r: "fail_and_retry h f s =
     ?s1\<lparr>timers := timers s @ [\<lparr>t_delay = BACKOFF_MS ! min (backoffIndex s) 3, t_pending = False\<rparr>],
         reconnectTimer := None, wsBase := b', checks := checks ?s1 @ cs'\<rparr>"
     and n: "cs' \<noteq> []" "c_pending (last cs')"
    unfolding fail_and_retry_def by blast
  show ?thesis
    unfolding r using a n by (simp add: f attempt_pending_def)
qed

lemma fail_loop_timers:
  assumes "attempt_pending s"
  shows "attempt_pending (fail_loop h fs s) \<and>
         timers (fail_loop h fs s) =
           timers s @ map (\<lambda>j. \<lparr>t_delay = BACKOFF_MS ! min (backoffIndex s + j) 3, t_pending = False\<rparr>)
                        [0..<length fs]"
  using assms
proof (induction fs arbitrary: s)
  case Nil
  then show ?case by simp
next
  case (Cons f fs)
  let ?s' = "fail_and_retry h f s"
  note r = fail_and_retry_round[OF Cons.prems, of h f]
  have p: "attempt_pending ?s'" using r by simp
  have bi: "backoffIndex ?s' = min (backoffIndex s + 1) 3" using r by simp
  have m: "min (min (k + 1) 3 + j) 3 = min (k + Suc j) 3" for k j :: nat
    by (auto simp: min_def)
  let ?G = "\<lambda>j. \<lparr>t_delay = BACKOFF_MS ! min (backoffIndex s + j) 3, t_pending = False\<rparr>"
  have e1: "map ?G [0..<Suc (length fs)] = ?G 0 # map (\<lambda>j. ?G (Suc j)) [0..<length fs]"
    by (rule map_upt_Suc)
  have e2: "map (\<lambda>j. ?G (Suc j)) [0..<length fs] =
        map (\<lambda>j. \<lparr>t_delay = BACKOFF_MS ! min (backoffIndex ?s' + j) 3, t_pending = False\<rparr>)
          [0..<length fs]"
    by (simp only: bi m)
  have t1: "timers ?s' = timers s @ [?G 0]" using r by simp
  have "timers (fail_loop h (f # fs) s) =
          timers ?s' @ map (\<lambda>j. \<lparr>t_delay = BACKOFF_MS ! min (backoffIndex ?s' + j) 3, t_pending = False\<rparr>)
            [0..<length fs]"
    using Cons.IH[OF p] by simp
  also have "\<dots> = timers s @ map ?G [0..<Suc (length fs)]"
    by (simp only: t1 e1 e2[symmetric] append_assoc append_Cons append_Nil)
  finally have "timers (fail_loop h (f # fs) s) = timers s @ map ?G [0..<length (f # fs)]"
    by (simp only: length_Cons)
  moreover have "attempt_pending (fail_loop h (f # fs) s)"
    using Cons.IH[OF p] by simp
  ultimately show ?case by blast
qed

lemma table_from_start:
  "map (\<lambda>j. BACKOFF_MS ! min j 3) [0..<n] = backoff_table n"
proof (rule nth_equalityI)
  show "length (map (\<lambda>j. BACKOFF_MS ! min j 3) [0..<n]) = length (backoff_table n)"
    by (simp add: backoff_table_def)
next
  fix j
  assume "j < length (map (\<lambda>j. BACKOFF_MS ! min j 3) [0..<n])"
  then have j: "j < n" by simp
  consider "j = 0" | "j = 1" | "j = 2" | "3 \<le> j" by linarith
  then show "map (\<lambda>j. BACKOFF_MS ! min j 3) [0..<n] ! j = backoff_table n ! j"
  proof cases
    case 4
    then have "min j 3 = 3" by simp
    then show ?thesis
      using j 4 by (simp add: backoff_table_def BACKOFF_MS_def nth_append)
  qed (use j in \<open>simp_all add: backoff_table_def BACKOFF_MS_def\<close>)
qed

lemma delays_from_start:
  assumes "attempt_pending s" "backoffIndex s = 0" "length (timers s0) = length (timers s)"
  shows "new_delays s0 (fail_loop h fs s) = backoff_table (length fs)"
proof -
  have "timers (fail_loop h fs s) =
           timers s @ map (\<lambda>j. \<lparr>t_delay = BACKOFF_MS ! min (backoffIndex s + j) 3, t_pending = False\<rparr>)
                        [0..<length fs]"
    using fail_loop_timers[OF assms(1)] by simp
  then have "new_delays s0 (fail_loop h fs s) = map (\<lambda>j. BACKOFF_MS ! min j 3) [0..<length fs]"
    using assms(2,3) by (simp add: new_delays_def comp_def)
  then show ?thesis by (simp add: table_from_start)
qed

lemma restart_pending:
  assumes "room s0 \<noteq> []" "shouldReconnect s0" "backoffIndex s0 = 0"
    and "s1 = openWs h (closeWs why (clearReconnectTimer s0))"
  shows "attempt_pending s1 \<and> backoffIndex s1 = 0 \<and> length (timers s1) = length (timers s0)"
proof -
  let ?s = "closeWs why (clearReconnectTimer s0)"
  have "openWs h ?s =
     ?s\<lparr>wsBase := (if wsBase ?s = [] \<or> wsBase ?s = DEFAULT_WS_BASE \<or> url_ok h (wsBase ?s)
                   then wsBase ?s else DEFAULT_WS_BASE),
       checks := checks ?s @
          [\<lparr>c_url = (if wsBase ?s \<noteq> [] \<and> url_ok h (wsBase ?s) then wsBase ?s else DEFAULT_WS_BASE,
                     room ?s),
            c_pending = True\<rparr>]\<rparr>"
    using assms by (intro openWs_started) simp_all
  then show ?thesis
    using assms by (simp add: attempt_pending_def)
qed

lemma delays_after_setRoom:
  assumes "normalizeRoom arg \<noteq> []" "\<not> (normalizeRoom arg = room s \<and> ws s \<noteq> None)"
  shows "new_delays s (fail_loop h fs (setRoom h arg s)) = backoff_table (length fs)"
proof -
  let ?s0 = "s\<lparr>defaultRoom := normalizeRoom arg, room := normalizeRoom arg, gesture := [],
           confidence := Fin 0, subscribers := Fin 0, backoffIndex := 0, shouldReconnect := True\<rparr>"
  have e: "setRoom h arg s = openWs h (closeWs ''room changed'' (clearReconnectTimer ?s0))"
    using assms by (rule setRoom_restart)
  have "attempt_pending (setRoom h arg s) \<and> backoffIndex (setRoom h arg s) = 0 \<and>
        length (timers (setRoom h arg s)) = length (timers ?s0)"
    using assms(1) e by (intro restart_pending) simp_all
  then show ?thesis
    by (intro delays_from_start) simp_all
qed

lemma delays_after_reconnect:
  assumes "room s \<noteq> []"
  shows "new_delays s (fail_loop h fs (reconnect h s)) = backoff_table (length fs)"
proof -
  let ?s0 = "s\<lparr>backoffIndex := 0, shouldReconnect := True\<rparr>"
  have e: "reconnect h s = openWs h (closeWs ''manual reconnect'' (clearReconnectTimer ?s0))"
    using assms by (simp add: reconnect_def)
  have "attempt_pending (reconnect h s) \<and> backoffIndex (reconnect h s) = 0 \<and>
        length (timers (reconnect h s)) = length (timers ?s0)"
    using assms e by (intro restart_pending) simp_all
  then show ?thesis
    by (intro delays_from_start) simp_all
qed

lemma opened_then_closed:
  assumes "i < length (socks s)" "s_state (socks s ! i) = Connecting" "s_attached (socks s ! i)"
    and "shouldReconnect s" "room s \<noteq> []" "reconnectTimer s = None"
  shows "\<exists>ks. run h [SockOpen i, SockClose i] s =
     s\<lparr>connectedF := False, ws := None, socks := ks, backoffIndex := 1,
       timers := timers s @ [\<lparr>t_delay = 1000, t_pending = True\<rparr>],
       reconnectTimer := Some (length (timers s))\<rparr>"
  using assms
  by (cases s) (auto simp: onopen_def onclose_def Let_def schedule_sets_timer BACKOFF_MS_def)

lemma delays_after_open:
  assumes "i < length (socks s)" "s_state (socks s ! i) = Connecting" "s_attached (socks s ! i)"
    and "shouldReconnect s" "room s \<noteq> []" "reconnectTimer s = None"
  shows "new_delays s (fail_loop h fs
           (run h [SockOpen i, SockClose i, TimerFire (length (timers s))] s))
         = backoff_table (Suc (length fs))"
proof -
  obtain ks where "run h [SockOpen i, SockClose i] s =
     s\<lparr>connectedF := False, ws := None, socks := ks, backoffIndex := 1,
       timers := timers s @ [\<lparr>t_delay = 1000, t_pending = True\<rparr>],
       reconnectTimer := Some (length (timers s))\<rparr>"
    using opened_then_closed[OF assms] by blast
  then obtain s2 where s2: "run h [SockOpen i, SockClose i] s = s2"
    and c: "s2 = s\<lparr>connectedF := False, ws := None, socks := ks, backoffIndex := 1,
       timers := timers s @ [\<lparr>t_delay = 1000, t_pending = True\<rparr>],
       reconnectTimer := Some (length (timers s))\<rparr>"
    by blast
  let ?s3 = "run h [SockOpen i, SockClose i, TimerFire (length (timers s))] s"
  have s3: "?s3 = step h (TimerFire (length (timers s))) s2"
    using s2 unfolding run_def by simp
  have "\<exists>cs b. step h (TimerFire (length (timers s))) s2 =
     s2\<lparr>timers := timers s @ [\<lparr>t_delay = 1000, t_pending = False\<rparr>], reconnectTimer := None,
       wsBase := b, checks := checks s2 @ cs\<rparr> \<and> cs \<noteq> [] \<and> c_pending (last cs)"
    using assms by (intro retry_fires) (simp_all add: c)
  then obtain cs b' where r: "?s3 =
     s2\<lparr>timers := timers s @ [\<lparr>t_delay = 1000, t_pending = False\<rparr>], reconnectTimer := None,
       wsBase := b', checks := checks s2 @ cs\<rparr>" and n: "cs \<noteq> []" "c_pending (last cs)"
    unfolding s3 by blast
  have p: "attempt_pending ?s3" and b: "backoffIndex ?s3 = 1"
    and t: "timers ?s3 = timers s @ [\<lparr>t_delay = 1000, t_pending = False\<rparr>]"
    unfolding r using assms n by (simp_all add: c attempt_pending_def)
  have "timers (fail_loop h fs ?s3) =
           timers ?s3 @ map (\<lambda>j. \<lparr>t_delay = BACKOFF_MS ! min (backoffIndex ?s3 + j) 3, t_pending = False\<rparr>)
                        [0..<length fs]"
    using fail_loop_timers[OF p] by blast
  then have "new_delays s (fail_loop h fs ?s3) =
       1000 # map (\<lambda>j. BACKOFF_MS ! min (Suc j) 3) [0..<length fs]"
    unfolding t b by (simp add: new_delays_def comp_def)
  also have "\<dots> = map (\<lambda>j. BACKOFF_MS ! min j 3) [0..<Suc (length fs)]"
    unfolding map_upt_Suc by (simp add: BACKOFF_MS_def)
  finally show ?thesis
    by (simp only: table_from_start)
qed

text \<open>
  C3, as amended. However each of N consecutive attempts fails, the delays set for them
  are the first N entries of 1000, 2000, 3000, 5000, 5000, ... when the attempts follow
  a \<open>setRoom\<close> call with a non-empty room that is not the unchanged-room case (the
  same room while a socket is held), or a \<open>reconnect\<close> call made while a room is
  set; and after a socket of the extension has opened, its loss is delayed by 1000 and
  the failures after it continue with 2000, 3000, 5000, ..., whatever the index was
  before the open.
\<close>

theorem backoff_sequence_and_resets:
  "(normalizeRoom arg \<noteq> [] \<and> \<not> (normalizeRoom arg = room s \<and> ws s \<noteq> None)
      \<longrightarrow> new_delays s (fail_loop h fs (setRoom h arg s)) = backoff_table (length fs))
   \<and> (room s \<noteq> []
      \<longrightarrow> new_delays s (fail_loop h fs (reconnect h s)) = backoff_table (length fs))
   \<and> (i < length (socks s) \<and> s_state (socks s ! i) = Connecting \<and> s_attached (socks s ! i) \<and>
       shouldReconnect s \<and> room s \<noteq> [] \<and> reconnectTimer s = None
      \<longrightarrow> new_delays s (fail_loop h fs
             (run h [SockOpen i, SockClose i, TimerFire (length (timers s))] s))
           = backoff_table (Suc (length fs)))"
  by (intro conjI impI delays_after_setRoom delays_after_reconnect delays_after_open) simp_all

theorem backoff_sequence_and_resets_witness:
  "normalizeRoom ''ST-1'' \<noteq> [] \<and>
   \<not> (normalizeRoom ''ST-1'' = room fresh \<and> ws fresh \<noteq> None) \<and>
   new_delays fresh
     (fail_loop sample_host [CheckDenied, CtorRaised, ClosedUnopened, CheckRaised, CheckDenied]
        (setRoom sample_host ''ST-1'' fresh))
     = [1000, 2000, 3000, 5000, 5000] \<and>
   room backing_off \<noteq> [] \<and>
   new_delays backing_off
     (fail_loop sample_host [CheckDenied, ClosedUnopened] (reconnect sample_host backing_off))
     = [1000, 2000] \<and>
   0 < length (socks connecting_after_two_failures) \<and>
   s_state (socks connecting_after_two_failures ! 0) = Connecting \<and>
   s_attached (socks connecting_after_two_failures ! 0) \<and>
   shouldReconnect connecting_after_two_failures \<and>
   room connecting_after_two_failures \<noteq> [] \<and>
   reconnectTimer connecting_after_two_failures = None \<and>
   backoffIndex connecting_after_two_failures = 2 \<and>
   new_delays connecting_after_two_failures
     (fail_loop sample_host [CheckDenied]
        (run sample_host [SockOpen 0, SockClose 0, TimerFire 2] connecting_after_two_failures))
     = [1000, 2000]"
  using backoff_sequence_and_resets
          [where s = fresh and h = sample_host and arg = "''ST-1''"
             and fs = "[CheckDenied, CtorRaised, ClosedUnopened, CheckRaised, CheckDenied]"]
        backoff_sequence_and_resets
          [where s = backing_off and h = sample_host and fs = "[CheckDenied, ClosedUnopened]"]
        backoff_sequence_and_resets
          [where s = connecting_after_two_failures and h = sample_host and i = 0
             and fs = "[CheckDenied]"]
  by (simp add: state_defs model_defs backoff_table_def)

text \<open>
  The claim as written, that every \<open>setRoom\<close> call resets the index, fails where the
  call is the unchanged-room case: after two failures and with the socket of the third
  attempt made but not open, \<open>setRoom\<close> with the same room returns at once, the
  index stays 2, and the loss of that socket is delayed by 3000.
\<close>

theorem setRoom_repeated_counterexample:
  "normalizeRoom ''ST-1'' \<noteq> [] \<and>
   backoffIndex (setRoom sample_host ''ST-1'' connecting_after_two_failures) = 2 \<and>
   new_delays connecting_after_two_failures
     (step sample_host (SockClose 0) (setRoom sample_host ''ST-1'' connecting_after_two_failures))
     = [3000]"
  by (simp add: state_defs model_defs new_delays_def)

subsection \<open>Switching and clearing the room\<close>

lemma room_switch_effects:
  assumes "normalizeRoom arg \<noteq> []" "normalizeRoom arg \<noteq> room s"
  shows "room (setRoom h arg s) = normalizeRoom arg \<and>
         gesture (setRoom h arg s) = [] \<and>
         confidence (setRoom h arg s) = Fin 0 \<and>
         subscribers (setRoom h arg s) = Fin 0 \<and>
         backoffIndex (setRoom h arg s) = 0 \<and>
         ws (setRoom h arg s) = None \<and>
         connectedF (setRoom h arg s) = connectedF s"
proof -
  let ?s1 = "closeWs ''room changed'' (clearReconnectTimer
       (s\<lparr>defaultRoom := normalizeRoom arg, room := normalizeRoom arg, gesture := [],
           confidence := Fin 0, subscribers := Fin 0, backoffIndex := 0, shouldReconnect := True\<rparr>))"
  have e: "setRoom h arg s = openWs h ?s1"
    using assms by (intro setRoom_restart) simp_all
  have o: "openWs h ?s1 =
     ?s1\<lparr>wsBase := (if wsBase ?s1 = [] \<or> wsBase ?s1 = DEFAULT_WS_BASE \<or> url_ok h (wsBase ?s1)
                   then wsBase ?s1 else DEFAULT_WS_BASE),
       checks := checks ?s1 @
          [\<lparr>c_url = (if wsBase ?s1 \<noteq> [] \<and> url_ok h (wsBase ?s1) then wsBase ?s1 else DEFAULT_WS_BASE,
                     room ?s1),
            c_pending = True\<rparr>]\<rparr>"
    using assms by (intro openWs_started) simp_all
  show ?thesis
    unfolding e o by simp
qed

text \<open>
  C4. Right after \<open>setRoom\<close> with a non-empty room that differs from the current
  one, the label is empty, confidence and subscriber count are 0, and \<open>connected\<close>
  is false until a new open completes. The three values are reset
  (\<open>room_switch_effects\<close>), but this path never writes \<open>_connected\<close>, while
  \<open>disconnect\<close> and the clearing of the room do after they close the socket: with
  the transport of room ST-1 open, \<open>setRoom\<close> to ST-2 closes that socket, nothing is
  live, and the reporter still answers true.
\<close>

theorem room_switch_leaves_connected_set:
  "isConnected opened_room \<and> room opened_room = ''ST-1'' \<and>
   room (setRoom sample_host ''ST-2'' opened_room) = ''ST-2'' \<and>
   live_socks (setRoom sample_host ''ST-2'' opened_room) = [] \<and>
   ws (setRoom sample_host ''ST-2'' opened_room) = None \<and>
   isConnected (setRoom sample_host ''ST-2'' opened_room)"
  by (simp add: state_defs model_defs)

text \<open>
  In every reachable state that holds a socket and has a non-empty room, \<open>setRoom\<close>
  with a value that normalizes to that room changes nothing at all: no field of the
  extension, no socket, no timer, no permission check.
\<close>

theorem same_room_live_noop:
  assumes "s = run h evs (init h b r)" "ws s \<noteq> None" "room s \<noteq> []" "normalizeRoom arg = room s"
  shows "setRoom h arg s = s"
proof -
  have "good s" using assms(1) by (simp add: good_reachable)
  then have "defaultRoom s = room s"
    using assms(3) by (simp add: good_def default_sync_def)
  then have "s\<lparr>defaultRoom := room s\<rparr> = s"
    by (cases s) simp
  then show ?thesis
    using assms by (simp add: setRoom_def setRoomInternal_def Let_def)
qed

theorem same_room_live_noop_witness:
  "opened_room = run sample_host [SetRoom ''ST-1'', PermResult 0 Granted, SockOpen 0]
                   (init sample_host DEFAULT_WS_BASE []) \<and>
   ws opened_room \<noteq> None \<and> room opened_room \<noteq> [] \<and>
   normalizeRoom '' ST-1 '' = room opened_room \<and>
   setRoom sample_host '' ST-1 '' opened_room = opened_room"
  using same_room_live_noop
          [where s = opened_room and h = sample_host and b = DEFAULT_WS_BASE and r = "[]"
             and evs = "[SetRoom ''ST-1'', PermResult 0 Granted, SockOpen 0]" and arg = "'' ST-1 ''"]
  by (simp add: state_defs model_defs)

text \<open>
  C5. In every state in which a transport is live, \<open>setRoom\<close> with the value the room
  already holds is a no-op. The test that decides it, \<open>room === this._room && this._ws\<close>,
  looks at the handle, and a transport can be live without being held: with two
  attempts granted for room ST-1, the second socket open and delivering frames, the
  close of the first socket clears the handle. \<open>setRoom\<close> with ST-1 then resets the
  subscriber count from 3 to 0 and starts a new permission check, the open socket stays
  as it is, and the grant of that check makes a second live socket for the same room.
\<close>

theorem same_room_restarts_beside_live_transport:
  "room handle_lost = ''ST-1'' \<and>
   normalizeRoom ''ST-1'' = room handle_lost \<and>
   live_socks handle_lost = [1] \<and>
   s_url (socks handle_lost ! 1) = (DEFAULT_WS_BASE, ''ST-1'') \<and>
   s_state (socks handle_lost ! 1) = Opened \<and>
   s_attached (socks handle_lost ! 1) \<and>
   ws handle_lost = None \<and>
   getSubscribers sample_host handle_lost = Some (Fin 3) \<and>
   pending_checks handle_lost = [] \<and>
   getSubscribers sample_host (setRoom sample_host ''ST-1'' handle_lost) = Some (Fin 0) \<and>
   pending_checks (setRoom sample_host ''ST-1'' handle_lost) = [2] \<and>
   live_socks (setRoom sample_host ''ST-1'' handle_lost) = [1] \<and>
   live_socks (step sample_host (PermResult 2 Granted) (setRoom sample_host ''ST-1'' handle_lost))
     = [1, 2]"
  by (simp add: example_defs model_defs)

text \<open>
  In every reachable state, \<open>setRoom\<close> with a value that normalizes to the empty
  string clears the room, turns the intent off, leaves no retry timer pending, drops
  the socket handle and closes the socket it referred to (reason \<open>room cleared\<close>,
  callbacks removed), starts no permission check, leaves label, confidence and
  subscriber count as they were, and the reporter answers not connected.
\<close>

theorem setRoom_empty_quiesces:
  assumes "s = run h evs (init h b r)" "normalizeRoom arg = []"
  shows "room (setRoom h arg s) = [] \<and>
         \<not> shouldReconnect (setRoom h arg s) \<and>
         reconnectTimer (setRoom h arg s) = None \<and>
         pending_timers (setRoom h arg s) = [] \<and>
         ws (setRoom h arg s) = None \<and>
         socks (setRoom h arg s) =
           (case ws s of None \<Rightarrow> socks s
            | Some i \<Rightarrow> (socks s)[i := close_sock ''room cleared'' (socks s ! i)]) \<and>
         (\<forall>i. ws s = Some i \<longrightarrow> i \<notin> set (live_socks (setRoom h arg s))) \<and>
         checks (setRoom h arg s) = checks s \<and>
         gesture (setRoom h arg s) = gesture s \<and>
         confidence (setRoom h arg s) = confidence s \<and>
         subscribers (setRoom h arg s) = subscribers s \<and>
         \<not> isConnected (setRoom h arg s)"
proof -
  let ?s0 = "s\<lparr>room := [], connectedF := False, shouldReconnect := False\<rparr>"
  have e: "setRoom h arg s = closeWs ''room cleared'' (clearReconnectTimer ?s0)"
    using assms(2) by (rule setRoom_empty)
  have "good s" using assms(1) by (simp add: good_reachable)
  then have "quiet (closeWs ''room cleared'' (clearReconnectTimer ?s0))"
    by (intro quiet_torn_down[of s]) (simp_all add: good_def)
  then have p: "pending_timers (setRoom h arg s) = []"
    unfolding e by (rule quiet_pending)
  have l: "\<forall>i. ws s = Some i \<longrightarrow> i \<notin> set (live_socks (setRoom h arg s))"
    unfolding e by (auto intro!: closeWs_drops_handle)
  show ?thesis
    using p l unfolding e by (simp add: closeWs_socks isConnected_def cong: option.case_cong)
qed

theorem setRoom_empty_quiesces_witness:
  "opened_room = run sample_host [SetRoom ''ST-1'', PermResult 0 Granted, SockOpen 0]
                   (init sample_host DEFAULT_WS_BASE []) \<and>
   normalizeRoom ''  '' = [] \<and>
   room (setRoom sample_host ''  '' opened_room) = [] \<and>
   \<not> shouldReconnect (setRoom sample_host ''  '' opened_room) \<and>
   pending_timers (setRoom sample_host ''  '' opened_room) = [] \<and>
   ws opened_room = Some 0 \<and> live_socks opened_room = [0] \<and>
   live_socks (setRoom sample_host ''  '' opened_room) = [] \<and>
   \<not> isConnected (setRoom sample_host ''  '' opened_room)"
  using setRoom_empty_quiesces
          [where s = opened_room and h = sample_host and b = DEFAULT_WS_BASE and r = "[]"
             and evs = "[SetRoom ''ST-1'', PermResult 0 Granted, SockOpen 0]" and arg = "''  ''"]
  by (simp add: state_defs model_defs)

text \<open>
  C8. In every state, \<open>setRoom\<close> with a value that normalizes to the empty string
  closes any live transport, and the caller sees not connected. \<open>_closeWs\<close> closes the
  socket the handle refers to and no other: with two sockets live after two overlapping
  attempts, clearing the room closes the second and leaves the first live with its
  callbacks set; when that one opens, the reporter answers connected, and a presence
  frame it delivers sets the subscriber count, all with the room empty and the intent
  off.
\<close>

theorem clearing_leaves_orphan_live:
  "live_socks two_live = [0, 1] \<and> ws two_live = Some 1 \<and>
   normalizeRoom ''  '' = [] \<and>
   room (setRoom sample_host ''  '' two_live) = [] \<and>
   \<not> shouldReconnect (setRoom sample_host ''  '' two_live) \<and>
   live_socks (setRoom sample_host ''  '' two_live) = [0] \<and>
   s_attached (socks (setRoom sample_host ''  '' two_live) ! 0) \<and>
   \<not> isConnected (setRoom sample_host ''  '' two_live) \<and>
   isConnected (step sample_host (SockOpen 0) (setRoom sample_host ''  '' two_live)) \<and>
   getSubscribers sample_host
     (run sample_host [SockOpen 0, SockMessage 0 presence_frame]
        (setRoom sample_host ''  '' two_live)) = Some (Fin 3)"
  by (simp add: example_defs model_defs)

text \<open>
  In every reachable state with a non-empty room and no socket handle, \<open>setRoom\<close>
  with the same room is not a no-op: label, confidence and subscriber count go back to
  their defaults, the backoff index to 0, the intent is set, no retry timer stays
  pending, and a new permission check for the address of this room is started at once;
  the sockets are left as they are.
\<close>

theorem same_room_without_transport_restarts:
  assumes "s = run h evs (init h b r)" "room s \<noteq> []" "ws s = None" "normalizeRoom arg = room s"
  shows "gesture (setRoom h arg s) = [] \<and>
         confidence (setRoom h arg s) = Fin 0 \<and>
         subscribers (setRoom h arg s) = Fin 0 \<and>
         backoffIndex (setRoom h arg s) = 0 \<and>
         shouldReconnect (setRoom h arg s) \<and>
         reconnectTimer (setRoom h arg s) = None \<and>
         pending_timers (setRoom h arg s) = [] \<and>
         checks (setRoom h arg s) = checks s @
           [\<lparr>c_url = (if wsBase s \<noteq> [] \<and> url_ok h (wsBase s) then wsBase s else DEFAULT_WS_BASE,
                      room s),
             c_pending = True\<rparr>] \<and>
         socks (setRoom h arg s) = socks s \<and>
         room (setRoom h arg s) = room s \<and>
         setRoom h arg s \<noteq> s"
proof -
  let ?s1 = "closeWs ''room changed'' (clearReconnectTimer
       (s\<lparr>defaultRoom := normalizeRoom arg, room := normalizeRoom arg, gesture := [],
           confidence := Fin 0, subscribers := Fin 0, backoffIndex := 0, shouldReconnect := True\<rparr>))"
  have e: "setRoom h arg s = openWs h ?s1"
    using assms by (intro setRoom_restart) simp_all
  have o: "openWs h ?s1 =
     ?s1\<lparr>wsBase := (if wsBase ?s1 = [] \<or> wsBase ?s1 = DEFAULT_WS_BASE \<or> url_ok h (wsBase ?s1)
                   then wsBase ?s1 else DEFAULT_WS_BASE),
       checks := checks ?s1 @
          [\<lparr>c_url = (if wsBase ?s1 \<noteq> [] \<and> url_ok h (wsBase ?s1) then wsBase ?s1 else DEFAULT_WS_BASE,
                     room ?s1),
            c_pending = True\<rparr>]\<rparr>"
    using assms by (intro openWs_started) simp_all
  have "good s" using assms(1) by (simp add: good_reachable)
  then have q: "quiet ?s1"
    by (intro quiet_torn_down[of s]) (simp_all add: good_def)
  have "quiet (openWs h ?s1)"
    unfolding o using q by (rule quiet_eq[rotated]) simp
  then have p: "pending_timers (setRoom h arg s) = []"
    unfolding e by (rule quiet_pending)
  have c: "checks (setRoom h arg s) = checks s @
           [\<lparr>c_url = (if wsBase s \<noteq> [] \<and> url_ok h (wsBase s) then wsBase s else DEFAULT_WS_BASE,
                      room s),
             c_pending = True\<rparr>]"
    unfolding e o using assms by simp
  then have n: "setRoom h arg s \<noteq> s"
    by (metis append_self_conv not_Cons_self2)
  have k: "socks (setRoom h arg s) = socks s"
    unfolding e using assms by (simp add: closeWs_socks)
  have f: "gesture (setRoom h arg s) = [] \<and>
         confidence (setRoom h arg s) = Fin 0 \<and>
         subscribers (setRoom h arg s) = Fin 0 \<and>
         backoffIndex (setRoom h arg s) = 0 \<and>
         shouldReconnect (setRoom h arg s) \<and>
         reconnectTimer (setRoom h arg s) = None \<and>
         room (setRoom h arg s) = room s"
    unfolding e o using assms by simp
  show ?thesis
    using p c n k f by simp
qed

theorem same_room_without_transport_restarts_witness:
  "backing_off = run sample_host [SetRoom ''ST-1'', PermResult 0 Denied]
                   (init sample_host DEFAULT_WS_BASE []) \<and>
   room backing_off \<noteq> [] \<and> ws backing_off = None \<and>
   normalizeRoom ''ST-1'' = room backing_off \<and>
   pending_timers backing_off = [0] \<and> backoffIndex backing_off = 1 \<and>
   pending_timers (setRoom sample_host ''ST-1'' backing_off) = [] \<and>
   backoffIndex (setRoom sample_host ''ST-1'' backing_off) = 0 \<and>
   pending_checks (setRoom sample_host ''ST-1'' backing_off) = [1] \<and>
   setRoom sample_host ''ST-1'' backing_off \<noteq> backing_off"
  using same_room_without_transport_restarts
          [where s = backing_off and h = sample_host and b = DEFAULT_WS_BASE and r = "[]"
             and evs = "[SetRoom ''ST-1'', PermResult 0 Denied]" and arg = "''ST-1''"]
  by (simp add: state_defs model_defs)

text \<open>
  C10. In every state with a non-empty room and no socket handle, \<open>setRoom\<close> with the
  same room resets the observed values to their defaults, \<open>connected\<close> among them.
  This path never writes \<open>_connected\<close>: after a reconnect issued while the transport of
  room ST-1 was open, the room is ST-1, no handle is held and nothing is live, and the
  flag is still set; \<open>setRoom\<close> with ST-1 restarts the connect sequence and the
  reporter goes on answering connected.
\<close>

theorem same_room_restart_leaves_connected_set:
  "room reconnect_while_open = ''ST-1'' \<and> ws reconnect_while_open = None \<and>
   live_socks reconnect_while_open = [] \<and>
   normalizeRoom ''ST-1'' = room reconnect_while_open \<and>
   isConnected reconnect_while_open \<and>
   setRoom sample_host ''ST-1'' reconnect_while_open \<noteq> reconnect_while_open \<and>
   pending_checks (setRoom sample_host ''ST-1'' reconnect_while_open) = [1, 2] \<and>
   live_socks (setRoom sample_host ''ST-1'' reconnect_while_open) = [] \<and>
   isConnected (setRoom sample_host ''ST-1'' reconnect_while_open)"
  by (simp add: example_defs model_defs)

subsection \<open>The confidence reporter\<close>

text \<open>
  Powers of two with integer exponents, and the binade of a positive rational.
\<close>

lemma two_powi_pos [simp]: "0 < (2::rat) powi e"
  by simp

lemma two_powi_le: "a \<le> b \<Longrightarrow> (2::rat) powi a \<le> 2 powi b"
  by (rule power_int_increasing) simp_all

lemma two_powi_less_D: "(2::rat) powi a < 2 powi b \<Longrightarrow> a < b"
  using two_powi_le[of b a] by force

lemma two_powi_Suc: "(2::rat) powi (e + 1) = 2 * 2 powi e"
  by (simp add: power_int_add)

lemma two_powi_nat: "0 \<le> e \<Longrightarrow> (2::rat) powi e = 2 ^ nat e"
  by (simp add: power_int_def)

lemma bitlen_rat_bounds:
  assumes "0 < p"
  shows "(2::rat) powi (bitlen p - 1) \<le> of_int p" and "of_int p < (2::rat) powi bitlen p"
proof -
  have b: "1 \<le> bitlen p" using assms bitlen_eq_zero_iff[of p] bitlen_nonneg[of p] by linarith
  have "2 ^ nat (bitlen p - 1) \<le> p" "p < 2 ^ nat (bitlen p)"
    using bitlen_bounds[OF assms] by simp_all
  then have "(of_int (2 ^ nat (bitlen p - 1)) :: rat) \<le> of_int p"
    and "(of_int p :: rat) < of_int (2 ^ nat (bitlen p))"
    by (simp_all only: of_int_le_iff of_int_less_iff)
  then show "(2::rat) powi (bitlen p - 1) \<le> of_int p" and "of_int p < (2::rat) powi bitlen p"
    using b by (simp_all add: two_powi_nat)
qed

lemma binade_bounds:
  assumes "0 < x"
  shows "(2::rat) powi binade x \<le> x" and "x < 2 powi (binade x + 1)"
proof -
  obtain p q where pq: "quotient_of x = (p, q)" by (cases "quotient_of x")
  have q: "0 < q" using quotient_of_denom_pos[OF pq] .
  have x: "x = of_int p / of_int q" using quotient_of_div[OF pq] .
  have p: "0 < p" using assms q x by (simp add: zero_less_divide_iff)
  have xq: "x * of_int q = of_int p" using x q by simp
  let ?d = "bitlen p - bitlen q"
  note bp = bitlen_rat_bounds[OF p] and bq = bitlen_rat_bounds[OF q]
  have "x * 2 powi (bitlen q - 1) \<le> x * of_int q"
    using bq(1) assms by (intro mult_left_mono) simp_all
  also have "\<dots> < 2 powi bitlen p" using bp(2) xq by simp
  finally have "x < 2 powi bitlen p / 2 powi (bitlen q - 1)"
    by (simp add: pos_less_divide_eq)
  also have "\<dots> = 2 powi (?d + 1)"
    by (simp add: power_int_diff [symmetric] algebra_simps)
  finally have hi: "x < 2 powi (?d + 1)" .
  have "2 powi (bitlen p - 1) \<le> x * of_int q" using bp(1) xq by simp
  also have "\<dots> < x * 2 powi bitlen q"
    using bq(2) assms by (intro mult_strict_left_mono) simp_all
  finally have "2 powi (bitlen p - 1) / 2 powi bitlen q < x"
    by (simp add: pos_divide_less_eq)
  moreover have "(2::rat) powi (bitlen p - 1) / 2 powi bitlen q = 2 powi (?d - 1)"
    by (simp add: power_int_diff [symmetric] algebra_simps)
  ultimately have lo: "2 powi (?d - 1) < x" by simp
  have b: "binade x = (if 2 powi ?d \<le> x then ?d else ?d - 1)"
    by (simp add: binade_def pq Let_def)
  show "(2::rat) powi binade x \<le> x"
    using lo by (simp add: b)
  show "x < 2 powi (binade x + 1)"
    using hi by (auto simp: b not_le)
qed

lemma binade_eqI:
  assumes "0 < x" "(2::rat) powi e \<le> x" "x < 2 powi (e + 1)"
  shows "binade x = e"
proof -
  have "(2::rat) powi binade x < 2 powi (e + 1)"
    using binade_bounds(1)[OF assms(1)] assms(3) by simp
  then have "binade x < e + 1" by (rule two_powi_less_D)
  moreover have "(2::rat) powi e < 2 powi (binade x + 1)"
    using binade_bounds(2)[OF assms(1)] assms(2) by simp
  then have "e < binade x + 1" by (rule two_powi_less_D)
  ultimately show ?thesis by simp
qed

lemma round_half_even_near: "\<bar>of_int (round_half_even y) - y\<bar> \<le> 1 / 2"
proof -
  have "of_int \<lfloor>y\<rfloor> \<le> y" "y < of_int \<lfloor>y\<rfloor> + 1" by linarith+
  then show ?thesis
    by (auto simp: round_half_even_def Let_def)
qed

lemma round_half_even_ge_floor: "\<lfloor>y\<rfloor> \<le> round_half_even y"
  by (simp add: round_half_even_def Let_def)

text \<open>
  What \<open>rnd\<close> returns: a value within half a unit in the last place of the exact
  result, which is at most the fraction \<open>2^(-53)\<close> of the result, or \<open>2^(-1075)\<close> among
  the subnormal values; an infinity from \<open>2^1024\<close> on, and never below \<open>2^1023\<close>.
\<close>

lemma mantissa_normal:
  assumes "0 < a" "- 1022 \<le> binade a"
  shows "2 ^ 52 \<le> round_half_even (a / 2 powi (binade a - 52))"
proof -
  have "(2::rat) powi binade a / 2 powi (binade a - 52) \<le> a / 2 powi (binade a - 52)"
    using binade_bounds(1)[OF assms(1)] by (intro divide_right_mono) simp_all
  moreover have "(2::rat) powi binade a / 2 powi (binade a - 52) = 2 ^ 52"
    by (simp add: power_int_diff [symmetric])
  ultimately have "(of_int (2 ^ 52) :: rat) \<le> a / 2 powi (binade a - 52)" by simp
  then have "2 ^ 52 \<le> \<lfloor>a / 2 powi (binade a - 52)\<rfloor>"
    by (simp only: le_floor_iff)
  then show ?thesis
    using round_half_even_ge_floor[of "a / 2 powi (binade a - 52)"] by linarith
qed

lemma rnd_shape:
  assumes "x \<noteq> 0"
  shows "\<exists>v. 0 \<le> v \<and> \<bar>v - \<bar>x\<bar>\<bar> \<le> \<bar>x\<bar> / 2 ^ 53 + 1 / 2 ^ 1075 \<and>
           (2 powi (- 1022) \<le> \<bar>x\<bar> \<longrightarrow> v \<noteq> 0) \<and>
           rnd x = (if 2 ^ 1024 \<le> v then D_Inf (x < 0)
                    else if v = 0 then D_Zero (x < 0)
                    else D_Num (if x < 0 then - v else v))"
proof -
  define a where "a = \<bar>x\<bar>"
  define e where "e = max (binade a) (- 1022)"
  define q where "q = (2::rat) powi (e - 52)"
  define m where "m = round_half_even (a / q)"
  define v where "v = of_int m * q"
  have a: "0 < a" using assms by (simp add: a_def)
  have q: "0 < q" by (simp add: q_def)
  have r: "rnd x = (if 2 ^ 1024 \<le> v then D_Inf (x < 0)
                    else if m = 0 then D_Zero (x < 0)
                    else D_Num (if x < 0 then - v else v))"
    using assms by (simp add: rnd_def Let_def a_def e_def q_def m_def v_def)
  have "0 \<le> \<lfloor>a / q\<rfloor>" using a q by simp
  then have m0: "0 \<le> m"
    unfolding m_def using round_half_even_ge_floor[of "a / q"] by linarith
  then have v0: "0 \<le> v" using q by (simp add: v_def)
  have mv: "m = 0 \<longleftrightarrow> v = 0" using q by (simp add: v_def)
  have "\<bar>of_int m - a / q\<bar> \<le> 1 / 2"
    unfolding m_def by (rule round_half_even_near)
  then have "\<bar>of_int m - a / q\<bar> * q \<le> 1 / 2 * q"
    using q by (intro mult_right_mono) simp_all
  moreover have "\<bar>of_int m - a / q\<bar> * q = \<bar>v - a\<bar>"
  proof -
    have "v - a = (of_int m - a / q) * q"
      using q by (simp add: v_def left_diff_distrib)
    then have "\<bar>v - a\<bar> = \<bar>of_int m - a / q\<bar> * \<bar>q\<bar>"
      by (simp only: abs_mult)
    then show ?thesis using q by simp
  qed
  ultimately have d: "\<bar>v - a\<bar> \<le> q / 2" by simp
  have h: "q / 2 \<le> a / 2 ^ 53 + 1 / 2 ^ 1075"
  proof (cases "- 1022 \<le> binade a")
    case True
    then have "e = binade a" by (simp add: e_def)
    then have "q / 2 = 2 powi binade a / 2 ^ 53"
      by (simp add: q_def power_int_diff)
    also have "\<dots> \<le> a / 2 ^ 53"
      using binade_bounds(1)[OF a] by (intro divide_right_mono) simp_all
    finally show ?thesis by simp
  next
    case False
    then have "e = - 1022" by (simp add: e_def)
    then have "q / 2 = 1 / 2 ^ 1075"
      by (simp add: q_def power_int_minus divide_simps)
    then show ?thesis using a by simp
  qed
  have n: "v \<noteq> 0" if "2 powi (- 1022) \<le> a"
  proof -
    have "(2::rat) powi (- 1022) < 2 powi (binade a + 1)"
      using that binade_bounds(2)[OF a] by simp
    then have b: "- 1022 \<le> binade a"
      using two_powi_less_D by fastforce
    then have "e = binade a" by (simp add: e_def)
    then have "2 ^ 52 \<le> m"
      using mantissa_normal[OF a b] by (simp add: m_def q_def)
    then show ?thesis using mv by auto
  qed
  show ?thesis
    using v0 d h n r mv unfolding a_def [symmetric]
    by (intro exI[of _ v]) auto
qed

lemma rnd_overflows:
  assumes "2 ^ 1024 \<le> \<bar>x\<bar>"
  shows "rnd x = D_Inf (x < 0)"
proof -
  define a where "a = \<bar>x\<bar>"
  have a: "0 < a" and x: "x \<noteq> 0"
    using assms by (auto simp: a_def intro: less_le_trans[of 0 "2 ^ 1024"])
  have "(2::rat) powi 1024 \<le> a" using assms by (simp add: a_def)
  then have "(2::rat) powi 1024 < 2 powi (binade a + 1)"
    using binade_bounds(2)[OF a] by simp
  then have b: "1024 \<le> binade a"
    using two_powi_less_D by fastforce
  then have e: "max (binade a) (- 1022) = binade a" by simp
  have m: "2 ^ 52 \<le> round_half_even (a / 2 powi (binade a - 52))"
    using b by (intro mantissa_normal[OF a]) simp
  have "(2::rat) ^ 1024 = 2 powi 1024" by simp
  also have "\<dots> \<le> 2 powi binade a" using b by (rule two_powi_le)
  also have "\<dots> = 2 ^ 52 * 2 powi (binade a - 52)"
    by (simp add: power_int_diff)
  also have "\<dots> \<le> of_int (round_half_even (a / 2 powi (binade a - 52))) * 2 powi (binade a - 52)"
  proof (intro mult_right_mono)
    have "(of_int (2 ^ 52) :: rat) \<le> of_int (round_half_even (a / 2 powi (binade a - 52)))"
      using m by (simp only: of_int_le_iff)
    then show "(2::rat) ^ 52 \<le> of_int (round_half_even (a / 2 powi (binade a - 52)))" by simp
  qed simp
  finally show ?thesis
    using x by (simp add: rnd_def Let_def e flip: a_def)
qed

lemma rnd_finite:
  assumes "\<bar>x\<bar> < 2 ^ 1023"
  shows "\<not> is_Inf (rnd x)"
proof (cases "x = 0")
  case True
  then show ?thesis by (simp add: rnd_def)
next
  case False
  from rnd_shape[OF False] obtain v where
    d: "\<bar>v - \<bar>x\<bar>\<bar> \<le> \<bar>x\<bar> / 2 ^ 53 + 1 / 2 ^ 1075" and
    r: "rnd x = (if 2 ^ 1024 \<le> v then D_Inf (x < 0)
                    else if v = 0 then D_Zero (x < 0)
                    else D_Num (if x < 0 then - v else v))"
    by blast
  have "\<bar>x\<bar> / 2 ^ 53 \<le> \<bar>x\<bar>"
    by (simp add: divide_le_eq)
  then have "v < 2 ^ 1024"
    using d assms by simp
  then show ?thesis by (simp add: r)
qed

lemma rnd_not_zero:
  assumes "1 / 100 \<le> \<bar>x\<bar>"
  shows "rnd x \<noteq> D_Zero b"
proof -
  have x: "x \<noteq> 0" using assms by auto
  have "(2::rat) powi (- 1022) \<le> 1 / 100"
    by (simp add: power_int_minus divide_simps)
  then have l: "(2::rat) powi (- 1022) \<le> \<bar>x\<bar>" using assms by linarith
  from rnd_shape[OF x] obtain v where
    n: "2 powi (- 1022) \<le> \<bar>x\<bar> \<longrightarrow> v \<noteq> 0" and
    r: "rnd x = (if 2 ^ 1024 \<le> v then D_Inf (x < 0)
                    else if v = 0 then D_Zero (x < 0)
                    else D_Num (if x < 0 then - v else v))"
    by blast
  from n l have "v \<noteq> 0" by blast
  then show ?thesis unfolding r by simp
qed

lemma rnd_normal:
  assumes "0 < x" "(2::rat) powi e \<le> x" "x < 2 powi (e + 1)" "- 1022 \<le> e" "e < 1023"
    and "round_half_even (x / 2 powi (e - 52)) = m"
  shows "rnd x = D_Num (of_int m * 2 powi (e - 52))"
proof -
  have b: "binade x = e" using assms(1-3) by (rule binade_eqI)
  have "\<not> is_Inf (rnd x)"
  proof (rule rnd_finite)
    have "x < 2 powi 1023"
      using assms(3,5) two_powi_le[of "e + 1" 1023] by simp
    then show "\<bar>x\<bar> < 2 ^ 1023" using assms(1) by simp
  qed
  moreover have "rnd x \<noteq> D_Zero False"
  proof -
    have "2 ^ 52 \<le> round_half_even (x / 2 powi (binade x - 52))"
      using assms(1,4) b by (intro mantissa_normal) simp_all
    then have "m \<noteq> 0" using assms(6) b by auto
    then show ?thesis
      using assms(1,4) assms(6) b by (auto simp: rnd_def Let_def max_def split: if_splits)
  qed
  ultimately show ?thesis
    using assms(1,4,6) b by (auto simp: rnd_def Let_def max_def split: if_splits)
qed

lemma floor_rat_numeral: "\<lfloor>(numeral a :: rat) / numeral b\<rfloor> = numeral a div numeral b"
  using floor_divide_of_int_eq[of "numeral a" "numeral b", where ?'a = rat] by simp

text \<open>
  The reporter never raises and never answers negative zero. For a finite value \<open>n\<close>
  whose hundredfold does not overflow, the answer is the double of \<open>k / 100\<close> for an
  integer \<open>k\<close> that differs from \<open>100 * n\<close> by at most one half and the rounding
  error of the product.
\<close>

lemma round2_zero [simp]: "round2 (D_Zero b) = D_Zero False"
  by (simp add: round2_def)

lemma round2_hundredths:
  assumes "\<not> is_Inf (mul100 (to_dbl (Fin n)))"
  shows "\<exists>k::int. \<bar>of_int k - n * 100\<bar> \<le> 1 / 2 + \<bar>n * 100\<bar> / 2 ^ 53 + 1 / 2 ^ 1075 \<and>
           round2 (to_dbl (Fin n)) = (if k = 0 then D_Zero False else rnd (of_int k / 100))"
proof (cases "n = 0")
  case True
  then show ?thesis by (intro exI[of _ 0]) simp
next
  case False
  then have x: "n * 100 \<noteq> 0" by simp
  from rnd_shape[OF x] obtain v where v0: "0 \<le> v"
    and d: "\<bar>v - \<bar>n * 100\<bar>\<bar> \<le> \<bar>n * 100\<bar> / 2 ^ 53 + 1 / 2 ^ 1075"
    and r: "rnd (n * 100) = (if 2 ^ 1024 \<le> v then D_Inf (n * 100 < 0)
                    else if v = 0 then D_Zero (n * 100 < 0)
                    else D_Num (if n * 100 < 0 then - v else v))"
    by blast
  have fin: "\<not> 2 ^ 1024 \<le> v"
    using assms False r by auto
  show ?thesis
  proof (cases "v = 0")
    case True
    then have "round2 (to_dbl (Fin n)) = D_Zero False"
      using False fin r by (simp add: round2_def)
    moreover have "\<bar>of_int 0 - n * 100\<bar> \<le> 1 / 2 + \<bar>n * 100\<bar> / 2 ^ 53 + 1 / 2 ^ 1075"
      using d True by simp
    ultimately show ?thesis by (intro exI[of _ 0]) simp
  next
    case nz: False
    define y where "y = (if n * 100 < 0 then - v else v)"
    define k where "k = \<lfloor>y + 1 / 2\<rfloor>"
    have m: "rnd (n * 100) = D_Num y"
      using fin nz r by (simp add: y_def)
    have yx: "\<bar>y - n * 100\<bar> = \<bar>v - \<bar>n * 100\<bar>\<bar>"
      using v0 by (auto simp: y_def abs_if)
    have "of_int k \<le> y + 1 / 2" "y + 1 / 2 < of_int k + 1"
      unfolding k_def by linarith+
    then have "\<bar>of_int k - y\<bar> \<le> 1 / 2" by linarith
    then have b: "\<bar>of_int k - n * 100\<bar> \<le> 1 / 2 + \<bar>n * 100\<bar> / 2 ^ 53 + 1 / 2 ^ 1075"
      using d yx by linarith
    have "round2 (to_dbl (Fin n)) = (if k = 0 then D_Zero False else rnd (of_int k / 100))"
    proof (cases "k = 0")
      case True
      then show ?thesis
        using \<open>n \<noteq> 0\<close> by (simp add: round2_def m k_def)
    next
      case False
      then have "1 \<le> \<bar>k\<bar>" by simp
      then have "(1::rat) \<le> \<bar>of_int k\<bar>"
        by (metis of_int_1 of_int_abs of_int_le_iff)
      then have "1 / 100 \<le> \<bar>(of_int k :: rat) / 100\<bar>" by simp
      then have "rnd (of_int k / 100) \<noteq> D_Zero True" by (rule rnd_not_zero)
      with False show ?thesis
        using \<open>n \<noteq> 0\<close> by (simp add: round2_def m k_def [symmetric] Let_def)
    qed
    with b show ?thesis by blast
  qed
qed

lemma getConfidence_value:
  "getConfidence h s = Some (round2 (to_dbl (if isFinite (confidence s) then confidence s else Fin 0)))"
  by (simp add: getConfidence_def toFiniteNumber_def)

lemma round2_no_negative_zero: "round2 d \<noteq> D_Zero True"
  by (simp add: round2_def Let_def)

lemma confidence_reported_in_hundredths:
  "getConfidence h s \<noteq> None \<and>
   getConfidence h s \<noteq> Some (D_Zero True) \<and>
   (confidence s = Fin n \<and> \<not> is_Inf (mul100 (to_dbl (Fin n)))
      \<longrightarrow> (\<exists>k::int. \<bar>of_int k - n * 100\<bar> \<le> 1 / 2 + \<bar>n * 100\<bar> / 2 ^ 53 + 1 / 2 ^ 1075 \<and>
             getConfidence h s = Some (if k = 0 then D_Zero False else rnd (of_int k / 100))))"
proof (intro conjI impI)
  show "getConfidence h s \<noteq> None" by (simp add: getConfidence_value)
  show "getConfidence h s \<noteq> Some (D_Zero True)"
    by (simp add: getConfidence_value round2_no_negative_zero)
next
  assume a: "confidence s = Fin n \<and> \<not> is_Inf (mul100 (to_dbl (Fin n)))"
  then have "getConfidence h s = Some (round2 (to_dbl (Fin n)))"
    by (simp add: getConfidence_value)
  with round2_hundredths[of n] a
  show "\<exists>k::int. \<bar>of_int k - n * 100\<bar> \<le> 1 / 2 + \<bar>n * 100\<bar> / 2 ^ 53 + 1 / 2 ^ 1075 \<and>
             getConfidence h s = Some (if k = 0 then D_Zero False else rnd (of_int k / 100))"
    by auto
qed

lemma huge_state: "confidence huge_confidence = Fin (8016673440035891 * 2 ^ 967)"
  by (simp add: number_defs model_defs)

lemma tiny_state: "confidence tiny_negative = Fin (- 5902958103587057 / 2 ^ 69)"
  by (simp add: number_defs model_defs)

text \<open>
  The gesture frame with confidence \<open>-0.00001\<close>, received on the open transport of a
  room, is reported as 0 and not as negative zero.
\<close>

lemma tiny_negative_reported_as_zero:
  "confidence tiny_negative = Fin (- 5902958103587057 / 2 ^ 69) \<and>
   \<not> is_Inf (mul100 (to_dbl (Fin (- 5902958103587057 / 2 ^ 69)))) \<and>
   getConfidence number_host tiny_negative = Some (D_Zero False)"
proof -
  note c = tiny_state
  have f: "\<not> is_Inf (mul100 (to_dbl (Fin (- 5902958103587057 / 2 ^ 69))))"
    by (simp add: rnd_finite)
  from confidence_reported_in_hundredths[of number_host tiny_negative "- 5902958103587057 / 2 ^ 69"] c f
  obtain k :: int where
    b: "\<bar>of_int k - (- 5902958103587057 / 2 ^ 69) * 100\<bar>
          \<le> 1 / 2 + \<bar>(- 5902958103587057 / 2 ^ 69) * (100::rat)\<bar> / 2 ^ 53 + 1 / 2 ^ 1075"
    and g: "getConfidence number_host tiny_negative
              = Some (if k = 0 then D_Zero False else rnd (of_int k / 100))"
    by blast
  define x :: rat where "x = (- 5902958103587057 / 2 ^ 69) * 100"
  have x: "- 1 / 8 \<le> x" "x \<le> 0" by (simp_all add: x_def)
  have t: "\<bar>x\<bar> / 2 ^ 53 + 1 / 2 ^ 1075 \<le> 1 / 4" by (simp add: x_def)
  have "\<bar>of_int k - x\<bar> \<le> 1 / 2 + \<bar>x\<bar> / 2 ^ 53 + 1 / 2 ^ 1075"
    unfolding x_def by (rule b)
  with t have "\<bar>of_int k - x\<bar> \<le> 3 / 4" by linarith
  with x have "(of_int k :: rat) < 1" "(- 1 :: rat) < of_int k" by linarith+
  then have "k < 1" "- 1 < k" by simp_all
  then have "k = 0" by simp
  with g c f show ?thesis by simp
qed

text \<open>
  The rounding error of the product shows at a tie of the hundredths: the double that
  the decimal \<open>0.015\<close> denotes is less than 0.015; its hundredfold rounds to 1.5,
  \<open>Math.round\<close> gives 2, and the answer is the double of 0.02.
\<close>

lemma product_of_near_tie: "rnd (1080863910568919 / 2 ^ 56 * 100) = D_Num (3 / 2)"
  by (rule rnd_normal[where e = 0 and m = "6755399441055744", THEN trans])
     (simp_all add: round_half_even_def Let_def power_int_minus floor_rat_numeral)

lemma double_of_two_hundredths: "rnd (2 / 100) = D_Num (5764607523034235 / 2 ^ 58)"
  by (rule rnd_normal[where e = "-6" and m = "5764607523034235", THEN trans])
     (simp_all add: round_half_even_def Let_def power_int_minus floor_rat_numeral)

lemma double_of_fifteen_thousandths: "rnd (15 / 1000) = D_Num (1080863910568919 / 2 ^ 56)"
  by (rule rnd_normal[where e = "-7" and m = "8646911284551352", THEN trans])
     (simp_all add: round_half_even_def Let_def power_int_minus floor_rat_numeral)

lemma near_tie_reported_above:
  "rnd (15 / 1000) = D_Num (1080863910568919 / 2 ^ 56) \<and>
   (1080863910568919 / 2 ^ 56 :: rat) < 15 / 1000 \<and>
   round2 (D_Num (1080863910568919 / 2 ^ 56)) = rnd (2 / 100)"
proof -
  have a: "mul100 (D_Num (1080863910568919 / 2 ^ 56)) = D_Num (3 / 2)"
    unfolding mul100.simps by (rule product_of_near_tie)
  have b: "Math_round (D_Num (3 / 2)) = D_Num 2"
    by simp
  have c: "div100 (D_Num 2) = rnd (2 / 100)"
    unfolding div100.simps ..
  have "rnd (2 / 100) \<noteq> D_Zero True"
    unfolding double_of_two_hundredths by simp
  then have "round2 (D_Num (1080863910568919 / 2 ^ 56)) = rnd (2 / 100)"
    unfolding round2_def a b c Let_def by simp
  moreover have "(1080863910568919 / 2 ^ 56 :: rat) < 15 / 1000"
    by simp
  ultimately show ?thesis
    using double_of_fifteen_thousandths by simp
qed

text \<open>
  C9. For every internal confidence value the reporter returns that value rounded to
  2 decimal places. \<open>round2\<close> scales by 100 in double arithmetic, and the product
  overflows for a value from about \<open>1.8e306\<close> on: the gesture frame with confidence
  \<open>1e307\<close>, received on the open transport of a room, is taken over as a finite
  confidence, and the reporter answers Infinity.
\<close>

theorem large_confidence_reported_as_infinity:
  "getGesture huge_confidence = ''wave'' \<and>
   confidence huge_confidence = Fin (8016673440035891 * 2 ^ 967) \<and>
   isFinite (confidence huge_confidence) \<and>
   getConfidence number_host huge_confidence = Some (D_Inf False)"
proof -
  have g: "getGesture huge_confidence = ''wave''"
    by (simp add: number_defs model_defs)
  have "rnd (8016673440035891 * 2 ^ 967 * 100) = D_Inf (8016673440035891 * 2 ^ 967 * 100 < (0::rat))"
    by (rule rnd_overflows) simp
  then have "round2 (to_dbl (Fin (8016673440035891 * 2 ^ 967))) = D_Inf False"
    by (simp add: round2_def)
  then show ?thesis
    using g by (simp add: huge_state getConfidence_value)
qed

end
